theory Spec2Isabelle
  imports Complex_Main "HOL-Library.Multiset"
begin

section \<open>Exceptions\<close>

text \<open>
  The exceptions that the modelled code raises or lets through, as values. The two
  \<open>RuntimeError\<close>s of the orchestrator are told apart by their message:
  \<open>MissingTranslations missing\<close> is \<open>RuntimeError(f"Missing translations for indexes: {missing}")\<close>
  and \<open>MismatchedBatchSize\<close> is \<open>RuntimeError("Translator returned mismatched batch size")\<close>.
  \<open>BackendError msg\<close> is any other exception of class \<open>Exception\<close> that a translator
  backend or a retried action raises, with its message. \<open>CancelledError\<close>
  (\<open>asyncio.CancelledError\<close>) and \<open>KeyboardInterrupt\<close> are the exceptions that derive from
  \<open>BaseException\<close> and not from \<open>Exception\<close>.
\<close>

datatype py_error =
    IndexError
  | ValueError
  | UnicodeDecodeError
  | MissingTranslations "nat list"
  | MismatchedBatchSize
  | BackendError string
  | CancelledError
  | KeyboardInterrupt

text \<open>Whether \<open>except Exception\<close> catches the exception.\<close>

fun is_exception :: "py_error \<Rightarrow> bool" where
  "is_exception CancelledError = False"
| "is_exception KeyboardInterrupt = False"
| "is_exception _ = True"

section \<open>Cache keys (utils/cache.py)\<close>

text \<open>
  Python strings are modelled as \<^typ>\<open>string\<close>, one \<^typ>\<open>char\<close> per code point (so the
  model covers the texts whose code points are below 256); \<open>len\<close> is \<^const>\<open>length\<close>.

  \<^verbatim>\<open>def make_cache_key(text, source, target): return f"{source}::{target}::{text}"\<close>
\<close>

definition make_cache_key :: "string \<Rightarrow> string \<Rightarrow> string \<Rightarrow> string" where
  "make_cache_key text source target = source @ ''::'' @ target @ ''::'' @ text"

section \<open>Batch planning (utils/batching.py, TranslationOrchestrator._build_batches)\<close>

text \<open>
  \<open>chunk_by_char_limit\<close> and \<open>_build_batches\<close> are the same loop; they differ in the element
  (a string, a \<open>PendingEntry\<close>) and hence in how the element's length is read (\<open>len(item)\<close>,
  \<open>len(entry.text)\<close>). \<open>batch_loop\<close> is that loop with the length function \<open>sz\<close> as a
  parameter; its last three arguments are the loop variables \<open>batches\<close>, \<open>current\<close> and
  \<open>char_count\<close>. The limits are Python ints, so they are \<^typ>\<open>int\<close> here and may be zero or
  negative.
\<close>

fun batch_loop :: "('a \<Rightarrow> nat) \<Rightarrow> int \<Rightarrow> int \<Rightarrow> 'a list \<Rightarrow> 'a list list \<Rightarrow> 'a list \<Rightarrow> nat
    \<Rightarrow> 'a list list" where
  "batch_loop sz max_chars max_items [] batches current char_count =
     (if current \<noteq> [] then batches @ [current] else batches)"
| "batch_loop sz max_chars max_items (item # items) batches current char_count =
     (let item_len = sz item in
      if current \<noteq> [] \<and>
         (int char_count + int item_len > max_chars \<or> int (length current) \<ge> max_items)
      then batch_loop sz max_chars max_items items (batches @ [current]) [item] (0 + item_len)
      else batch_loop sz max_chars max_items items batches (current @ [item])
             (char_count + item_len))"

definition chunk_by_char_limit :: "string list \<Rightarrow> int \<Rightarrow> int \<Rightarrow> string list list" where
  "chunk_by_char_limit items max_chars max_items =
     batch_loop length max_chars max_items items [] [] 0"

text \<open>\<open>PendingEntry\<close> (orchestrator.py); its field \<open>text\<close> is \<open>pe_text\<close> here.\<close>

record PendingEntry =
  pe_text :: string
  indexes :: "nat list"
  cache_key :: string

definition build_batches :: "int \<Rightarrow> int \<Rightarrow> PendingEntry list \<Rightarrow> PendingEntry list list" where
  "build_batches batch_char_limit batch_size entries =
     batch_loop (\<lambda>entry. length (pe_text entry)) batch_char_limit batch_size entries [] [] 0"

text \<open>The cumulative character count of a batch.\<close>

definition batch_chars :: "('a \<Rightarrow> nat) \<Rightarrow> 'a list \<Rightarrow> nat" where
  "batch_chars sz b = sum_list (map sz b)"

text \<open>
  What holds of every batch the planner closes: it is not empty, it has at most \<open>max_items\<close>
  entries, and it stays within the character budget unless it is a single entry.
\<close>

definition batch_ok :: "('a \<Rightarrow> nat) \<Rightarrow> int \<Rightarrow> int \<Rightarrow> 'a list \<Rightarrow> bool" where
  "batch_ok sz max_chars max_items b =
     (b \<noteq> [] \<and> int (length b) \<le> max_items \<and>
      (int (batch_chars sz b) \<le> max_chars \<or> length b = 1))"

section \<open>Deduplication (utils/text.py)\<close>

text \<open>
  \<open>str.strip()\<close> removes the leading and trailing characters for which \<open>str.isspace()\<close>
  holds; among the code points below 256 these are 9 to 13, 28 to 32, 133 and 160.
\<close>

definition is_space :: "char \<Rightarrow> bool" where
  "is_space c = (let n = (of_char c :: nat) in
                   (9 \<le> n \<and> n \<le> 13) \<or> (28 \<le> n \<and> n \<le> 32) \<or> n = 133 \<or> n = 160)"

definition strip :: "string \<Rightarrow> string" where
  "strip s = rev (dropWhile is_space (rev (dropWhile is_space s)))"

text \<open>
  \<open>_sequence_ratio\<close> calls \<open>difflib.SequenceMatcher(None, a, b).ratio()\<close> of Python's
  standard library. The library function is the parameter \<open>ratio\<close> of the model; the float
  it returns and the float \<open>similarity_threshold\<close> (0.985 by default) are rationals here.
\<close>

definition sequence_ratio :: "(string \<Rightarrow> string \<Rightarrow> rat) \<Rightarrow> string \<Rightarrow> string \<Rightarrow> rat" where
  "sequence_ratio ratio a b = (if a = [] \<and> b = [] then 1 else ratio a b)"

text \<open>
  \<open>_find_match\<close>: the loop over \<open>enumerate(pool)\<close>, with the running index \<open>i\<close> as an
  argument.
\<close>

fun find_match_from :: "(string \<Rightarrow> string \<Rightarrow> rat) \<Rightarrow> rat \<Rightarrow> string \<Rightarrow> string list \<Rightarrow> nat
    \<Rightarrow> nat option" where
  "find_match_from ratio threshold candidate [] i = None"
| "find_match_from ratio threshold candidate (other # pool) i =
     (if candidate = other then Some i
      else if sequence_ratio ratio candidate other \<ge> threshold then Some i
      else find_match_from ratio threshold candidate pool (Suc i))"

definition find_match :: "(string \<Rightarrow> string \<Rightarrow> rat) \<Rightarrow> string \<Rightarrow> string list \<Rightarrow> rat
    \<Rightarrow> nat option" where
  "find_match ratio candidate pool threshold = find_match_from ratio threshold candidate pool 0"

record DeduplicationResult =
  unique_texts :: "string list"
  groups :: "nat list list"

text \<open>
  \<open>deduplicate_texts\<close>: the loop over \<open>enumerate(texts)\<close> with the loop variables \<open>unique\<close>
  and \<open>groups\<close> (\<open>grps\<close>). \<open>groups[match_index].append(idx)\<close> raises IndexError when \<open>match_index\<close> is
  not an index of \<open>groups\<close>.
\<close>

fun dedup_loop :: "(string \<Rightarrow> string \<Rightarrow> rat) \<Rightarrow> rat \<Rightarrow> nat \<Rightarrow> string list \<Rightarrow> string list
    \<Rightarrow> nat list list \<Rightarrow> py_error + DeduplicationResult" where
  "dedup_loop ratio threshold idx [] unique grps =
     Inr \<lparr>unique_texts = unique, groups = grps\<rparr>"
| "dedup_loop ratio threshold idx (txt # texts) unique grps =
     (let normalized = strip txt in
      case find_match ratio normalized unique threshold of
        None \<Rightarrow> dedup_loop ratio threshold (Suc idx) texts (unique @ [txt]) (grps @ [[idx]])
      | Some match_index \<Rightarrow>
          if match_index < length grps
          then dedup_loop ratio threshold (Suc idx) texts unique
                 (grps[match_index := grps ! match_index @ [idx]])
          else Inl IndexError)"

definition deduplicate_texts :: "(string \<Rightarrow> string \<Rightarrow> rat) \<Rightarrow> string list \<Rightarrow> rat
    \<Rightarrow> py_error + DeduplicationResult" where
  "deduplicate_texts ratio texts similarity_threshold =
     dedup_loop ratio similarity_threshold 0 texts [] []"

definition default_threshold :: rat where
  "default_threshold = 985 / 1000"

text \<open>
  The index \<open>i\<close> of a text \<open>x\<close> is at home when \<open>_find_match\<close> finds a match for \<open>x\<close> in the
  pool and the group of that match holds \<open>i\<close>.
\<close>

definition at_home :: "(string \<Rightarrow> string \<Rightarrow> rat) \<Rightarrow> rat \<Rightarrow> string list \<Rightarrow> nat list list \<Rightarrow> nat
    \<Rightarrow> string \<Rightarrow> bool" where
  "at_home ratio threshold unique grps i x =
     (case find_match ratio x unique threshold of
        None \<Rightarrow> False
      | Some m \<Rightarrow> m < length grps \<and> i \<in> set (grps ! m))"

section \<open>The similarity ratio of difflib\<close>

text \<open>
  A model of \<open>difflib.SequenceMatcher(None, a, b).ratio()\<close> of Python's standard library,
  for a second string shorter than 200 characters (from 200 on, the library also sets
  popular characters aside). \<open>find_longest_match\<close> finds the longest block common to \<open>a\<close>
  and \<open>b\<close>: it returns where the block starts in \<open>a\<close>, where it starts in \<open>b\<close>, and its
  length; of the longest blocks it takes the one that starts earliest in \<open>a\<close>, and of those
  the one that starts earliest in \<open>b\<close>. \<open>matching_size\<close> adds up the lengths of the blocks
  that \<open>get_matching_blocks\<close> collects: the longest block, then the same to its left and to
  its right. The ratio is \<open>2.0 * matches / (len(a) + len(b))\<close>, and 1.0 when both are empty.
\<close>

fun common_prefix :: "'a list \<Rightarrow> 'a list \<Rightarrow> nat" where
  "common_prefix (x # xs) (y # ys) = (if x = y then Suc (common_prefix xs ys) else 0)"
| "common_prefix _ _ = 0"

definition better :: "'a list \<Rightarrow> 'a list \<Rightarrow> nat \<times> nat \<times> nat \<Rightarrow> nat \<times> nat \<Rightarrow> nat \<times> nat \<times> nat" where
  "better a b best ij =
     (case best of (besti, bestj, bestsize) \<Rightarrow> case ij of (i, j) \<Rightarrow>
        let k = common_prefix (drop i a) (drop j b)
        in if k > bestsize then (i, j, k) else best)"

definition find_longest_match :: "'a list \<Rightarrow> 'a list \<Rightarrow> nat \<times> nat \<times> nat" where
  "find_longest_match a b =
     foldl (better a b) (0, 0, 0) (List.product [0..<length a] [0..<length b])"

lemma foldl_better_range:
  assumes "snd (snd best) = 0 \<or> (fst best < length a \<and> fst (snd best) < length b)"
      and "\<forall>(i, j) \<in> set ps. i < length a \<and> j < length b"
  shows "snd (snd (foldl (better a b) best ps)) = 0
       \<or> (fst (foldl (better a b) best ps) < length a
          \<and> fst (snd (foldl (better a b) best ps)) < length b)"
  using assms
proof (induction ps arbitrary: best)
  case Nil
  then show ?case by simp
next
  case (Cons p ps)
  have "snd (snd (better a b best p)) = 0
      \<or> (fst (better a b best p) < length a \<and> fst (snd (better a b best p)) < length b)"
    using Cons.prems by (auto simp: better_def Let_def split: prod.splits)
  then show ?case using Cons.IH Cons.prems(2) by simp
qed

lemma find_longest_match_range:
  "find_longest_match a b = (i, j, k) \<Longrightarrow> 0 < k \<Longrightarrow> i < length a \<and> j < length b"
  using foldl_better_range [of "(0, 0, 0)" a b "List.product [0..<length a] [0..<length b]"]
  by (auto simp: find_longest_match_def)

function matching_size :: "'a list \<Rightarrow> 'a list \<Rightarrow> nat" where
  "matching_size a b =
     (case find_longest_match a b of (i, j, k) \<Rightarrow>
        if k = 0 then 0
        else k
           + (if 0 < i \<and> 0 < j then matching_size (take i a) (take j b) else 0)
           + (if i + k < length a \<and> j + k < length b
              then matching_size (drop (i + k) a) (drop (j + k) b) else 0))"
  by pat_completeness auto
termination
proof (relation "measure (\<lambda>(a, b). length a + length b)")
  show "wf (measure (\<lambda>(a :: 'a list, b :: 'a list). length a + length b))" by simp
next
  fix a b :: "'a list" and x i y j k
  assume "(i, y) = find_longest_match a b" "(j, k) = y" "k \<noteq> 0" "0 < i \<and> 0 < j"
  then have "i < length a \<and> j < length b"
    using find_longest_match_range [of a b i j k] by simp
  then show "((take i a, take j b), (a, b)) \<in> measure (\<lambda>(a, b). length a + length b)"
    by simp
next
  fix a b :: "'a list" and x i y j k
  assume "i + k < length a \<and> j + k < length b" "k \<noteq> 0"
  then show "((drop (i + k) a, drop (j + k) b), (a, b))
               \<in> measure (\<lambda>(a, b). length a + length b)"
    by simp arith
qed

definition difflib_ratio :: "string \<Rightarrow> string \<Rightarrow> rat" where
  "difflib_ratio a b =
     (if length a + length b = 0 then 1
      else 2 * of_nat (matching_size a b) / of_nat (length a + length b))"

section \<open>Retry executor (config.py, TranslationOrchestrator._retry)\<close>

record RetryPolicy =
  max_attempts :: int
  backoff_factor :: rat
  backoff_jitter :: rat

definition default_retry_policy :: RetryPolicy where
  "default_retry_policy = \<lparr>max_attempts = 4, backoff_factor = 3 / 2, backoff_jitter = 1 / 4\<rparr>"

text \<open>
  What one run of \<open>_retry\<close> does besides returning: \<open>attempts\<close> is the final value of its
  local variable \<open>attempt\<close>, which counts the calls of \<open>action\<close>; \<open>logged\<close> lists the calls of
  \<open>log_cb\<close>, each as the attempt number and the exception that its message formats; \<open>slept\<close>
  lists the value of \<open>delay\<close> at each \<open>asyncio.sleep\<close>. The random jitter added to the sleep
  is not modelled, and the floats \<open>delay\<close> and \<open>backoff_factor\<close> are rationals.
\<close>

record retry_trace =
  attempts :: nat
  logged :: "(nat \<times> py_error) list"
  slept :: "rat list"

text \<open>
  \<open>action\<close> is an effectful call: it takes the state \<open>s\<close> it acts on and returns its result
  or the exception it raised, with the new state. \<open>log_cb\<close> tells whether a log callback was
  given. The handler is \<open>except Exception\<close>: an exception that is not an \<open>Exception\<close>
  (\<open>asyncio.CancelledError\<close>, \<open>KeyboardInterrupt\<close>) is not caught, so it leaves \<open>_retry\<close>
  at once, without a log entry, a sleep or another attempt. The \<open>while True\<close> loop ends:
  each round increments \<open>attempt\<close> and goes on only while \<open>attempt < max_attempts\<close>.
\<close>

function retry_loop :: "('s \<Rightarrow> (py_error + 'a) \<times> 's) \<Rightarrow> RetryPolicy \<Rightarrow> bool \<Rightarrow> nat \<Rightarrow> rat \<Rightarrow> 's
    \<Rightarrow> retry_trace \<Rightarrow> (py_error + 'a) \<times> 's \<times> retry_trace" where
  "retry_loop action policy log_cb attempt delay s tr =
     (let attempt = attempt + 1 in
      case action s of
        (Inr v, s') \<Rightarrow> (Inr v, s', tr\<lparr>attempts := attempt\<rparr>)
      | (Inl exc, s') \<Rightarrow>
          if \<not> is_exception exc then (Inl exc, s', tr\<lparr>attempts := attempt\<rparr>)
          else
            let tr = (if log_cb then tr\<lparr>logged := logged tr @ [(attempt, exc)]\<rparr> else tr) in
            if int attempt \<ge> max_attempts policy
            then (Inl exc, s', tr\<lparr>attempts := attempt\<rparr>)
            else retry_loop action policy log_cb attempt (delay * backoff_factor policy) s'
                   (tr\<lparr>slept := slept tr @ [delay]\<rparr>))"
  by pat_completeness auto
termination
  by (relation "measure (\<lambda>(action, policy, log_cb, attempt, delay, s, tr).
                   nat (max_attempts policy - int attempt))") auto

declare retry_loop.simps [simp del]

definition retry :: "('s \<Rightarrow> (py_error + 'a) \<times> 's) \<Rightarrow> RetryPolicy \<Rightarrow> bool \<Rightarrow> 's
    \<Rightarrow> (py_error + 'a) \<times> 's \<times> retry_trace" where
  "retry action policy log_cb s =
     retry_loop action policy log_cb 0 1 s \<lparr>attempts = 0, logged = [], slept = []\<rparr>"

text \<open>
  To speak about the calls of an action: the state after its first \<open>n\<close> calls, the result
  of its \<open>n\<close>-th call (counted from 1), and whether its first \<open>n\<close> calls all fail, that
  is, all raise an exception of class \<open>Exception\<close>.
\<close>

fun after_calls :: "('s \<Rightarrow> 'r \<times> 's) \<Rightarrow> nat \<Rightarrow> 's \<Rightarrow> 's" where
  "after_calls action 0 s = s"
| "after_calls action (Suc n) s = after_calls action n (snd (action s))"

definition call_result :: "('s \<Rightarrow> 'r \<times> 's) \<Rightarrow> 's \<Rightarrow> nat \<Rightarrow> 'r" where
  "call_result action s n = fst (action (after_calls action (n - 1) s))"

fun fails_first :: "('s \<Rightarrow> (py_error + 'a) \<times> 's) \<Rightarrow> nat \<Rightarrow> 's \<Rightarrow> bool" where
  "fails_first action 0 s = True"
| "fails_first action (Suc n) s =
     (case fst (action s) of
        Inl exc \<Rightarrow> is_exception exc \<and> fails_first action n (snd (action s))
      | Inr v \<Rightarrow> False)"

text \<open>
  Three test actions on a call counter: \<open>flaky\<close> raises on its first three calls and then
  returns; \<open>broken\<close> raises on every call, with another message from the fourth call on;
  \<open>cancelled\<close> raises \<open>asyncio.CancelledError\<close> on its first call and then returns.
\<close>

definition flaky :: "nat \<Rightarrow> (py_error + string list) \<times> nat" where
  "flaky n = (if n < 3 then Inl (BackendError ''timeout'') else Inr [''Merhaba''], Suc n)"

definition broken :: "nat \<Rightarrow> (py_error + string list) \<times> nat" where
  "broken n = (Inl (BackendError (if n < 3 then ''timeout'' else ''quota'')), Suc n)"

definition cancelled :: "nat \<Rightarrow> (py_error + string list) \<times> nat" where
  "cancelled n = (if n < 1 then Inl CancelledError else Inr [''Merhaba''], Suc n)"

section \<open>Racing backend (translator/google.py)\<close>

text \<open>
  The state of a \<open>GoogleTranslator\<close> that the modelled methods read and write. The class
  attribute \<open>google_endpoints\<close> is a constant.
\<close>

definition google_endpoints :: "string list" where
  "google_endpoints =
     [''https://translate.googleapis.com/translate_a/single'',
      ''https://translate.google.com/translate_a/single'',
      ''https://translate.google.com.tr/translate_a/single'',
      ''https://translate.google.co.uk/translate_a/single'']"

record GoogleTranslator =
  endpoint_index :: nat
  lingva_index :: nat
  endpoint_failures :: "string \<rightharpoonup> int"
  use_multi_endpoint :: bool

text \<open>\<open>self._endpoint_failures.get(ep, 0)\<close>\<close>

definition failures_get :: "(string \<rightharpoonup> int) \<Rightarrow> string \<Rightarrow> int" where
  "failures_get failures ep = (case failures ep of None \<Rightarrow> 0 | Some n \<Rightarrow> n)"

text \<open>The local \<open>min_failures\<close> and the list comprehension \<open>available\<close> of \<open>_get_next_endpoint\<close>.\<close>

definition min_failures :: "GoogleTranslator \<Rightarrow> int" where
  "min_failures g = min_list (map (failures_get (endpoint_failures g)) google_endpoints)"

definition available :: "GoogleTranslator \<Rightarrow> string list" where
  "available g =
     filter (\<lambda>ep. failures_get (endpoint_failures g) ep \<le> min_failures g + 2) google_endpoints"

definition get_next_endpoint :: "GoogleTranslator \<Rightarrow> string \<times> GoogleTranslator" where
  "get_next_endpoint g =
     (let (g, avail) = (if available g = []
                        then (g\<lparr>endpoint_failures := Map.empty\<rparr>, google_endpoints)
                        else (g, available g));
          g = g\<lparr>endpoint_index := (endpoint_index g + 1) mod length avail\<rparr>
      in (avail ! endpoint_index g, g))"

text \<open>
  The body of a response is the value that \<open>resp.json(content_type=None)\<close> returns, any JSON
  value. \<open>truthy\<close> is Python's truth test on it, \<open>iterate\<close> what a \<open>for\<close> loop over it
  visits and \<open>index0\<close> the subscript \<open>[0]\<close>; the last two are \<open>None\<close> where Python raises
  (TypeError, IndexError, KeyError).
\<close>

datatype json =
    JNull
  | JBool bool
  | JNum rat
  | JStr string
  | JArr "json list"
  | JObj "(string \<times> json) list"

fun truthy :: "json \<Rightarrow> bool" where
  "truthy JNull = False"
| "truthy (JBool b) = b"
| "truthy (JNum r) = (r \<noteq> 0)"
| "truthy (JStr s) = (s \<noteq> [])"
| "truthy (JArr xs) = (xs \<noteq> [])"
| "truthy (JObj kvs) = (kvs \<noteq> [])"

fun iterate :: "json \<Rightarrow> json list option" where
  "iterate (JArr xs) = Some xs"
| "iterate (JStr s) = Some (map (\<lambda>c. JStr [c]) s)"
| "iterate (JObj kvs) = Some (map (\<lambda>kv. JStr (fst kv)) kvs)"
| "iterate _ = None"

fun index0 :: "json \<Rightarrow> json option" where
  "index0 (JArr (x # xs)) = Some x"
| "index0 (JStr (c # cs)) = Some (JStr [c])"
| "index0 _ = None"

text \<open>
  The loop \<open>for seg in segs: if seg and seg[0]: full_translation += seg[0]\<close>; \<open>None\<close> when
  it raises (\<open>seg[0]\<close> raises, or \<open>seg[0]\<close> is truthy and not a string).
\<close>

fun join_segments :: "json list \<Rightarrow> string \<Rightarrow> string option" where
  "join_segments [] full_translation = Some full_translation"
| "join_segments (seg # segs) full_translation =
     (if truthy seg
      then (case index0 seg of
              None \<Rightarrow> None
            | Some first \<Rightarrow>
                if truthy first
                then (case first of
                        JStr s \<Rightarrow> join_segments segs (full_translation @ s)
                      | _ \<Rightarrow> None)
                else join_segments segs full_translation)
      else join_segments segs full_translation)"

text \<open>
  What \<open>try_endpoint\<close> makes of a body: \<open>NoSegments\<close> when \<open>segs\<close> is falsy (it returns
  \<open>None\<close> and leaves the failure counter alone), \<open>Raises\<close> when an exception is raised, and
  otherwise the joined \<open>full_translation\<close>.
\<close>

datatype joined = NoSegments | Raises | Joined string

definition join_body :: "json \<Rightarrow> joined" where
  "join_body data =
     (let segs = (case data of JArr (x # xs) \<Rightarrow> x | _ \<Rightarrow> JNull) in
      if \<not> truthy segs then NoSegments
      else case iterate segs of
             None \<Rightarrow> Raises
           | Some items \<Rightarrow> (case join_segments items [] of
                             None \<Rightarrow> Raises
                           | Some full_translation \<Rightarrow> Joined full_translation))"

definition BATCH_SEPARATOR :: string where
  "BATCH_SEPARATOR = CHR 0x0A # ''|||RNLSEP999|||'' @ [CHR 0x0A]"

text \<open>
  \<open>str.split(sep)\<close> for a separator that is not empty (Python raises ValueError on an empty
  one; \<open>BATCH_SEPARATOR\<close> is not empty): the text is cut at each occurrence of \<open>sep\<close>, found
  from left to right without overlap. \<open>part\<close> is the piece read since the last cut.
\<close>

function split_loop :: "string \<Rightarrow> string \<Rightarrow> string \<Rightarrow> string list" where
  "split_loop sep part [] = [part]"
| "split_loop sep part (c # cs) =
     (if sep \<noteq> [] \<and> take (length sep) (c # cs) = sep
      then part # split_loop sep [] (drop (length sep) (c # cs))
      else split_loop sep (part @ [c]) cs)"
  by pat_completeness auto
termination
  by (relation "measure (\<lambda>(sep, part, s). length s)") auto

definition py_split :: "string \<Rightarrow> string \<Rightarrow> string list" where
  "py_split s sep = split_loop sep [] s"

text \<open>
  One request of the separator path: \<open>RequestFailed\<close> when \<open>session.get\<close> raises an
  \<open>Exception\<close>, otherwise the status and the body (\<open>None\<close> when \<open>resp.json\<close> raises one).
  The cancellation of a task (\<open>asyncio.CancelledError\<close>, which \<open>try_endpoint\<close> re-raises) is
  not a response and is outside this model.
\<close>

datatype response = RequestFailed | Response int "json option"

definition count_failure :: "(string \<rightharpoonup> int) \<Rightarrow> string \<Rightarrow> (string \<rightharpoonup> int)" where
  "count_failure failures endpoint = failures(endpoint \<mapsto> failures_get failures endpoint + 1)"

text \<open>
  The inner \<open>try_endpoint\<close> of \<open>_try_batch_separator\<close>, on the response that its request
  got. It returns the parts or \<open>None\<close>, and the failure counters.
\<close>

definition try_endpoint :: "string list \<Rightarrow> string \<Rightarrow> response \<Rightarrow> (string \<rightharpoonup> int)
    \<Rightarrow> string list option \<times> (string \<rightharpoonup> int)" where
  "try_endpoint texts endpoint resp failures =
     (case resp of
        RequestFailed \<Rightarrow> (None, count_failure failures endpoint)
      | Response status body \<Rightarrow>
          if status \<noteq> 200 then (None, count_failure failures endpoint)
          else (case body of
                  None \<Rightarrow> (None, count_failure failures endpoint)
                | Some data \<Rightarrow>
                    (case join_body data of
                       NoSegments \<Rightarrow> (None, failures)
                     | Raises \<Rightarrow> (None, count_failure failures endpoint)
                     | Joined full_translation \<Rightarrow>
                         let parts = py_split full_translation BATCH_SEPARATOR in
                         if length parts \<noteq> length texts then (None, failures)
                         else (Some (map strip parts), failures(endpoint \<mapsto> 0)))))"

text \<open>Python's truth test on the \<open>Optional[List[str]]\<close> and \<open>Optional[str]\<close> results.\<close>

definition result_truthy :: "'a list option \<Rightarrow> bool" where
  "result_truthy result = (case result of None \<Rightarrow> False | Some xs \<Rightarrow> xs \<noteq> [])"

text \<open>
  \<open>_try_batch_separator\<close>. The network is the parameter \<open>net\<close>: the response to the request
  number \<open>t\<close> (counted from 0) sent to an endpoint. With \<open>use_multi_endpoint\<close> the three
  requests run as concurrent tasks; \<open>order\<close> lists the tasks in the order in which they
  complete, the first truthy result is returned and the tasks after it are cancelled. The
  model runs the tasks one after the other in that order.
\<close>

fun pick_endpoints :: "nat \<Rightarrow> GoogleTranslator \<Rightarrow> string list \<times> GoogleTranslator" where
  "pick_endpoints 0 g = ([], g)"
| "pick_endpoints (Suc n) g =
     (let (ep, g) = get_next_endpoint g; (eps, g) = pick_endpoints n g in (ep # eps, g))"

fun race :: "string list \<Rightarrow> (nat \<Rightarrow> string \<Rightarrow> response) \<Rightarrow> string list \<Rightarrow> nat list
    \<Rightarrow> GoogleTranslator \<Rightarrow> string list option \<times> GoogleTranslator" where
  "race texts net endpoints_to_try [] g = (None, g)"
| "race texts net endpoints_to_try (t # order) g =
     (if t < length endpoints_to_try
      then (let ep = endpoints_to_try ! t;
                (result, failures) = try_endpoint texts ep (net t ep) (endpoint_failures g);
                g = g\<lparr>endpoint_failures := failures\<rparr>
            in if result_truthy result then (result, g)
               else race texts net endpoints_to_try order g)
      else race texts net endpoints_to_try order g)"

fun one_by_one :: "string list \<Rightarrow> (nat \<Rightarrow> string \<Rightarrow> response) \<Rightarrow> nat \<Rightarrow> nat
    \<Rightarrow> GoogleTranslator \<Rightarrow> string list option \<times> GoogleTranslator" where
  "one_by_one texts net t 0 g = (None, g)"
| "one_by_one texts net t (Suc n) g =
     (let (ep, g) = get_next_endpoint g;
          (result, failures) = try_endpoint texts ep (net t ep) (endpoint_failures g);
          g = g\<lparr>endpoint_failures := failures\<rparr>
      in if result_truthy result then (result, g)
         else one_by_one texts net (Suc t) n g)"

definition try_batch_separator :: "string list \<Rightarrow> (nat \<Rightarrow> string \<Rightarrow> response) \<Rightarrow> nat list
    \<Rightarrow> GoogleTranslator \<Rightarrow> string list option \<times> GoogleTranslator" where
  "try_batch_separator texts net order g =
     (if use_multi_endpoint g
      then (let (endpoints_to_try, g) = pick_endpoints (min 3 (length google_endpoints)) g
            in race texts net endpoints_to_try order g)
      else one_by_one texts net 0 3 g)"

text \<open>
  \<open>translate_texts\<close>. \<open>_translate_single\<close> is the parameter \<open>translate_single\<close>; the parallel
  fallback \<open>_translate_parallel\<close> calls it for every text and puts \<open>""\<close> where it gives
  nothing (the model makes the calls one after the other).
\<close>

fun translate_parallel :: "(string \<Rightarrow> GoogleTranslator \<Rightarrow> string option \<times> GoogleTranslator)
    \<Rightarrow> string list \<Rightarrow> GoogleTranslator \<Rightarrow> string list \<times> GoogleTranslator" where
  "translate_parallel translate_single [] g = ([], g)"
| "translate_parallel translate_single (t # texts) g =
     (let (result, g) = translate_single t g;
          (results, g) = translate_parallel translate_single texts g
      in ((if result_truthy result then the result else []) # results, g))"

definition translate_texts :: "(string \<Rightarrow> GoogleTranslator \<Rightarrow> string option \<times> GoogleTranslator)
    \<Rightarrow> (nat \<Rightarrow> string \<Rightarrow> response) \<Rightarrow> nat list \<Rightarrow> string list \<Rightarrow> GoogleTranslator
    \<Rightarrow> string list \<times> GoogleTranslator" where
  "translate_texts translate_single net order texts g =
     (if texts = [] then ([], g)
      else if length texts = 1
      then (let (result, g) = translate_single (texts ! 0) g
            in ([if result_truthy result then the result else []], g))
      else (let total_chars = sum_list (map length texts);
                (result, g) = (if length texts \<le> 8 \<and> total_chars \<le> 1200
                               then try_batch_separator texts net order g
                               else (None, g))
            in if result_truthy result then (the result, g)
               else translate_parallel translate_single texts g))"

text \<open>Sample states and response bodies.\<close>

definition sample_backend :: GoogleTranslator where
  "sample_backend =
     \<lparr>endpoint_index = 0, lingva_index = 0,
      endpoint_failures = [''https://translate.googleapis.com/translate_a/single'' \<mapsto> 5,
                           ''https://translate.google.com.tr/translate_a/single'' \<mapsto> 2],
      use_multi_endpoint = True\<rparr>"

definition one_segment :: json where
  "one_segment = JArr [JArr [JArr [JStr ''Merhaba Selam'', JStr ''Hello Hi'']], JNull, JStr ''en'']"

definition two_segments :: json where
  "two_segments =
     JArr [JArr [JArr [JStr (''Merhaba'' @ BATCH_SEPARATOR), JStr ''Hello''],
                 JArr [JStr '' Selam'', JStr ''Hi'']], JNull, JStr ''en'']"

definition fresh_backend :: GoogleTranslator where
  "fresh_backend = \<lparr>endpoint_index = 0, lingva_index = 0, endpoint_failures = Map.empty,
                     use_multi_endpoint = True\<rparr>"

section \<open>Cache tiers (utils/cache.py)\<close>

text \<open>
  The durable store is a file of bytes; the file system maps a path to the bytes of the file
  there. \<open>path.open("r", encoding="utf-8")\<close> decodes the bytes as UTF-8 when \<open>json.load\<close>
  reads them: \<open>utf8_decode\<close> gives the code points, or \<open>None\<close> where the codec raises
  \<open>UnicodeDecodeError\<close> (a byte that cannot start a character, a missing or wrong
  continuation byte, an overlong form, a surrogate, a code point above \<open>0x10FFFF\<close>).
\<close>

type_synonym filesystem = "string \<rightharpoonup> nat list"

definition is_cont :: "nat \<Rightarrow> bool" where
  "is_cont b = (0x80 \<le> b \<and> b \<le> 0xBF)"

fun utf8_decode :: "nat list \<Rightarrow> nat list option" where
  "utf8_decode [] = Some []"
| "utf8_decode (b0 # bs) =
     (if b0 < 0x80 then map_option ((#) b0) (utf8_decode bs)
      else if 0xC2 \<le> b0 \<and> b0 \<le> 0xDF then
        (case bs of
           b1 # r \<Rightarrow>
             if is_cont b1
             then map_option ((#) ((b0 - 0xC0) * 64 + (b1 - 0x80))) (utf8_decode r)
             else None
         | _ \<Rightarrow> None)
      else if 0xE0 \<le> b0 \<and> b0 \<le> 0xEF then
        (case bs of
           b1 # b2 # r \<Rightarrow>
             let cp = (b0 - 0xE0) * 4096 + (b1 - 0x80) * 64 + (b2 - 0x80) in
             if is_cont b1 \<and> is_cont b2 \<and> 0x800 \<le> cp \<and> \<not> (0xD800 \<le> cp \<and> cp \<le> 0xDFFF)
             then map_option ((#) cp) (utf8_decode r)
             else None
         | _ \<Rightarrow> None)
      else if 0xF0 \<le> b0 \<and> b0 \<le> 0xF4 then
        (case bs of
           b1 # b2 # b3 # r \<Rightarrow>
             let cp = (b0 - 0xF0) * 262144 + (b1 - 0x80) * 4096 + (b2 - 0x80) * 64 + (b3 - 0x80) in
             if is_cont b1 \<and> is_cont b2 \<and> is_cont b3 \<and> 0x10000 \<le> cp \<and> cp \<le> 0x10FFFF
             then map_option ((#) cp) (utf8_decode r)
             else None
         | _ \<Rightarrow> None)
      else None)"

text \<open>
  \<open>TranslationMemory\<close>: its fields \<open>path\<close> and \<open>_data\<close> are \<open>tm_path\<close> and \<open>tm_data\<close> here.
  \<open>_data\<close> is declared \<open>Dict[str, str]\<close>. The JSON parser is a parameter of the model:
  \<open>json_loads\<close> takes the decoded text and returns the mapping, or \<open>None\<close> where
  \<open>json.load\<close> raises \<open>JSONDecodeError\<close>. So is the writer: \<open>json_dumps\<close> gives the bytes
  that \<open>json.dump(..., ensure_ascii=False, indent=2)\<close> writes for a mapping.
\<close>

record TranslationMemory =
  tm_path :: string
  auto_flush :: bool
  tm_data :: "string \<rightharpoonup> string"
  dirty :: bool

text \<open>
  \<open>_load\<close>: an absent file is first written as \<open>{}\<close> (the bytes 123, 125); then the file is
  read. Only \<open>JSONDecodeError\<close> is caught.
\<close>

definition load :: "(nat list \<Rightarrow> (string \<rightharpoonup> string) option) \<Rightarrow> TranslationMemory \<Rightarrow> filesystem
    \<Rightarrow> (py_error + TranslationMemory) \<times> filesystem" where
  "load json_loads m fs =
     (let fs = (if fs (tm_path m) = None then fs(tm_path m \<mapsto> [123, 125]) else fs) in
      case fs (tm_path m) of
        None \<Rightarrow> (Inl ValueError, fs)
      | Some bytes \<Rightarrow>
          (case utf8_decode bytes of
             None \<Rightarrow> (Inl UnicodeDecodeError, fs)
           | Some txt \<Rightarrow>
               (case json_loads txt of
                  None \<Rightarrow> (Inr (m\<lparr>tm_data := Map.empty\<rparr>), fs)
                | Some d \<Rightarrow> (Inr (m\<lparr>tm_data := d\<rparr>), fs))))"

text \<open>\<open>TranslationMemory.__init__\<close>\<close>

definition new_memory :: "(nat list \<Rightarrow> (string \<rightharpoonup> string) option) \<Rightarrow> string \<Rightarrow> bool \<Rightarrow> filesystem
    \<Rightarrow> (py_error + TranslationMemory) \<times> filesystem" where
  "new_memory json_loads p flush_now fs =
     load json_loads \<lparr>tm_path = p, auto_flush = flush_now, tm_data = Map.empty, dirty = False\<rparr> fs"

definition tm_get :: "TranslationMemory \<Rightarrow> string \<Rightarrow> string option" where
  "tm_get m key = tm_data m key"

definition tm_flush :: "((string \<rightharpoonup> string) \<Rightarrow> nat list) \<Rightarrow> TranslationMemory \<Rightarrow> filesystem
    \<Rightarrow> TranslationMemory \<times> filesystem" where
  "tm_flush json_dumps m fs =
     (if \<not> dirty m then (m, fs)
      else (m\<lparr>dirty := False\<rparr>, fs(tm_path m \<mapsto> json_dumps (tm_data m))))"

definition tm_set :: "((string \<rightharpoonup> string) \<Rightarrow> nat list) \<Rightarrow> string \<Rightarrow> string \<Rightarrow> TranslationMemory
    \<Rightarrow> filesystem \<Rightarrow> TranslationMemory \<times> filesystem" where
  "tm_set json_dumps key v m fs =
     (let m = m\<lparr>tm_data := (tm_data m)(key \<mapsto> v), dirty := True\<rparr>
      in if auto_flush m then tm_flush json_dumps m fs else (m, fs))"

text \<open>
  \<open>SessionCache\<close> is its dictionary \<open>_store\<close>. The \<open>lru_cache\<close> in front of \<open>_fetch\<close> is
  emptied by every \<open>set\<close>, the only writer of \<open>_store\<close>, so \<open>get\<close> returns what \<open>_store\<close>
  holds.
\<close>

type_synonym SessionCache = "string \<rightharpoonup> string"

definition sc_get :: "SessionCache \<Rightarrow> string \<Rightarrow> string option" where
  "sc_get store key = store key"

definition sc_set :: "SessionCache \<Rightarrow> string \<Rightarrow> string \<Rightarrow> SessionCache" where
  "sc_set store key v = store(key \<mapsto> v)"

text \<open>
  A store file cut off in the middle of a character: the bytes of \<open>{"k": "G\<close> followed by
  \<open>0xC3\<close>, the first of the two bytes of a two-byte character.
\<close>

definition truncated_store :: "nat list" where
  "truncated_store = [123, 34, 107, 34, 58, 32, 34, 71, 195]"

section \<open>Orchestrator (translator/base.py, translator/orchestrator.py)\<close>

text \<open>\<open>TranslationRequest\<close>; its field \<open>texts\<close> is \<open>req_texts\<close> here.\<close>

record TranslationRequest =
  req_texts :: "string list"
  source_lang :: string
  target_lang :: string

text \<open>
  Everything a call of \<open>translate\<close> reads and writes outside its own variables: the state
  of the translator backend, the two cache tiers and the file system under the durable one,
  and the calls it makes, in order: \<open>requests\<close> lists the requests passed to the backend's
  \<open>translate_texts\<close>, \<open>progress_calls\<close> the arguments of \<open>progress_cb\<close>, \<open>log_calls\<close> those of
  \<open>log_cb\<close> and \<open>sleeps\<close> the delays slept.
\<close>

record 'b world =
  backend :: 'b
  requests :: "TranslationRequest list"
  session_cache :: SessionCache
  memory :: TranslationMemory
  files :: filesystem
  progress_calls :: "(nat \<times> nat) list"
  log_calls :: "(nat \<times> py_error) list"
  sleeps :: "rat list"

text \<open>
  A \<open>TranslationOrchestrator\<close>: the backend's \<open>translate_texts\<close> as a function of the
  request and the backend's state, the retry policy and the two batch limits, with the two
  library functions the model takes as parameters (\<open>seq_ratio\<close> for difflib's ratio,
  \<open>json_dump\<close> for the JSON writer).
\<close>

record 'b TranslationOrchestrator =
  translator :: "TranslationRequest \<Rightarrow> 'b \<Rightarrow> (py_error + string list) \<times> 'b"
  retry_policy :: RetryPolicy
  batch_char_limit :: int
  batch_size :: int
  seq_ratio :: "string \<Rightarrow> string \<Rightarrow> rat"
  json_dump :: "(string \<rightharpoonup> string) \<Rightarrow> nat list"

text \<open>
  \<open>self.session_cache.get(key) or self.memory.get(key)\<close>, and the test \<open>if cached:\<close>: a
  string is truthy when it is not empty.
\<close>

definition str_truthy :: "string option \<Rightarrow> bool" where
  "str_truthy v = (case v of None \<Rightarrow> False | Some s \<Rightarrow> s \<noteq> [])"

definition cached_value :: "'b world \<Rightarrow> string \<Rightarrow> string option" where
  "cached_value w key =
     (if str_truthy (sc_get (session_cache w) key) then sc_get (session_cache w) key
      else tm_get (memory w) key)"

text \<open>
  \<open>for idx in indexes: resolved[idx] = value\<close>; the assignment raises IndexError when
  \<open>idx\<close> is not an index of \<open>resolved\<close>.
\<close>

fun write_slots :: "nat list \<Rightarrow> string \<Rightarrow> string option list \<Rightarrow> py_error + string option list" where
  "write_slots [] v resolved = Inr resolved"
| "write_slots (idx # idxs) v resolved =
     (if idx < length resolved then write_slots idxs v (resolved[idx := Some v])
      else Inl IndexError)"

text \<open>
  The first loop of \<open>translate\<close>, over \<open>zip(dedup.unique_texts, dedup.groups)\<close>, with the
  loop variables \<open>resolved\<close> and \<open>pending\<close>.
\<close>

fun resolve_cached :: "'b world \<Rightarrow> string \<Rightarrow> string \<Rightarrow> (string \<times> nat list) list
    \<Rightarrow> string option list \<Rightarrow> PendingEntry list
    \<Rightarrow> py_error + string option list \<times> PendingEntry list" where
  "resolve_cached w src tgt [] resolved pending = Inr (resolved, pending)"
| "resolve_cached w src tgt ((unique_text, idxs) # rest) resolved pending =
     (let key = make_cache_key unique_text src tgt;
          cached = cached_value w key
      in if str_truthy cached
         then (case write_slots idxs (the cached) resolved of
                 Inl e \<Rightarrow> Inl e
               | Inr resolved \<Rightarrow> resolve_cached w src tgt rest resolved pending)
         else resolve_cached w src tgt rest resolved
                (pending @ [\<lparr>pe_text = unique_text, indexes = idxs, cache_key = key\<rparr>]))"

text \<open>\<open>sum(1 for item in resolved if item is not None)\<close>\<close>

definition count_resolved :: "string option list \<Rightarrow> nat" where
  "count_resolved resolved = length (filter (\<lambda>item. item \<noteq> None) resolved)"

definition report_progress :: "bool \<Rightarrow> nat \<Rightarrow> nat \<Rightarrow> 'b world \<Rightarrow> 'b world" where
  "report_progress progress_cb completed total_count w =
     (if progress_cb then w\<lparr>progress_calls := progress_calls w @ [(completed, total_count)]\<rparr> else w)"

text \<open>
  The innermost loop of \<open>_translate_pending\<close>, \<open>for idx in entry.indexes\<close>, with the loop
  variables \<open>resolved\<close> and \<open>completed\<close>.
\<close>

fun scatter :: "bool \<Rightarrow> nat \<Rightarrow> nat list \<Rightarrow> string \<Rightarrow> string option list \<Rightarrow> nat \<Rightarrow> 'b world
    \<Rightarrow> (py_error + string option list \<times> nat) \<times> 'b world" where
  "scatter progress_cb total_count [] translated resolved completed w = (Inr (resolved, completed), w)"
| "scatter progress_cb total_count (idx # idxs) translated resolved completed w =
     (if idx < length resolved
      then scatter progress_cb total_count idxs translated (resolved[idx := Some translated])
             (completed + 1) (report_progress progress_cb (completed + 1) total_count w)
      else (Inl IndexError, w))"

text \<open>
  The two cache writes of a fresh translation, \<open>self.session_cache.set\<close> and
  \<open>self.memory.set\<close>.
\<close>

definition write_through :: "'b TranslationOrchestrator \<Rightarrow> PendingEntry \<Rightarrow> string \<Rightarrow> 'b world
    \<Rightarrow> 'b world" where
  "write_through orch entry translated w =
     (let w = w\<lparr>session_cache := sc_set (session_cache w) (cache_key entry) translated\<rparr>;
          (m, fs) = tm_set (json_dump orch) (cache_key entry) translated (memory w) (files w)
      in w\<lparr>memory := m, files := fs\<rparr>)"

text \<open>The loop \<open>for entry, translated in zip(batch, translations)\<close>.\<close>

fun store_batch :: "'b TranslationOrchestrator \<Rightarrow> bool \<Rightarrow> nat \<Rightarrow> (PendingEntry \<times> string) list
    \<Rightarrow> string option list \<Rightarrow> nat \<Rightarrow> 'b world
    \<Rightarrow> (py_error + string option list \<times> nat) \<times> 'b world" where
  "store_batch orch progress_cb total_count [] resolved completed w = (Inr (resolved, completed), w)"
| "store_batch orch progress_cb total_count ((entry, translated) # rest) resolved completed w =
     (case scatter progress_cb total_count (indexes entry) translated resolved completed
             (write_through orch entry translated w) of
        (Inl e, w) \<Rightarrow> (Inl e, w)
      | (Inr (resolved, completed), w) \<Rightarrow>
          store_batch orch progress_cb total_count rest resolved completed w)"

text \<open>
  The closure \<open>action\<close> of \<open>_translate_pending\<close>: one call of the backend's
  \<open>translate_texts\<close> with the request of the batch.
\<close>

definition backend_action :: "'b TranslationOrchestrator \<Rightarrow> TranslationRequest \<Rightarrow> 'b world
    \<Rightarrow> (py_error + string list) \<times> 'b world" where
  "backend_action orch request w =
     (case translator orch request (backend w) of
        (result, b) \<Rightarrow> (result, w\<lparr>backend := b, requests := requests w @ [request]\<rparr>))"

text \<open>The loop \<open>for batch in batches\<close> of \<open>_translate_pending\<close>.\<close>

fun translate_batches :: "'b TranslationOrchestrator \<Rightarrow> string \<Rightarrow> string \<Rightarrow> bool \<Rightarrow> bool \<Rightarrow> nat
    \<Rightarrow> PendingEntry list list \<Rightarrow> string option list \<Rightarrow> nat \<Rightarrow> 'b world
    \<Rightarrow> (py_error + string option list) \<times> 'b world" where
  "translate_batches orch src tgt progress_cb log_cb total_count [] resolved completed w =
     (Inr resolved, w)"
| "translate_batches orch src tgt progress_cb log_cb total_count (batch # batches) resolved completed w =
     (let request = \<lparr>req_texts = map pe_text batch, source_lang = src, target_lang = tgt\<rparr>
      in case retry (backend_action orch request) (retry_policy orch) log_cb w of
           (result, w, tr) \<Rightarrow>
             let w = w\<lparr>log_calls := log_calls w @ logged tr, sleeps := sleeps w @ slept tr\<rparr>
             in (case result of
                   Inl e \<Rightarrow> (Inl e, w)
                 | Inr translations \<Rightarrow>
                     if length translations \<noteq> length batch then (Inl MismatchedBatchSize, w)
                     else (case store_batch orch progress_cb total_count (zip batch translations)
                                  resolved completed w of
                             (Inl e, w) \<Rightarrow> (Inl e, w)
                           | (Inr (resolved, completed), w) \<Rightarrow>
                               translate_batches orch src tgt progress_cb log_cb total_count batches
                                 resolved completed w)))"

definition translate_pending :: "'b TranslationOrchestrator \<Rightarrow> PendingEntry list
    \<Rightarrow> string option list \<Rightarrow> string \<Rightarrow> string \<Rightarrow> bool \<Rightarrow> bool \<Rightarrow> 'b world
    \<Rightarrow> (py_error + string option list) \<times> 'b world" where
  "translate_pending orch pending resolved src tgt progress_cb log_cb w =
     (let batches = build_batches (batch_char_limit orch) (batch_size orch) pending;
          total_count = length resolved;
          completed = count_resolved resolved
      in translate_batches orch src tgt progress_cb log_cb total_count batches resolved completed w)"

text \<open>
  \<open>translate\<close> up to its last three lines (its local \<open>total\<close> is \<open>total_count\<close> here): it returns the buffer \<open>resolved\<close> as it stands
  before the check for missing translations.
\<close>

definition fill_slots :: "'b TranslationOrchestrator \<Rightarrow> string list \<Rightarrow> string \<Rightarrow> string \<Rightarrow> bool
    \<Rightarrow> bool \<Rightarrow> 'b world \<Rightarrow> (py_error + string option list) \<times> 'b world" where
  "fill_slots orch txts src tgt progress_cb log_cb w =
     (let total_count = length txts;
          resolved = replicate total_count None
      in case deduplicate_texts (seq_ratio orch) txts default_threshold of
           Inl e \<Rightarrow> (Inl e, w)
         | Inr dedup \<Rightarrow>
             (case resolve_cached w src tgt (zip (unique_texts dedup) (groups dedup))
                     resolved [] of
                Inl e \<Rightarrow> (Inl e, w)
              | Inr (resolved, pending) \<Rightarrow>
                  let completed = count_resolved resolved;
                      w = report_progress progress_cb completed total_count w
                  in if pending \<noteq> []
                     then translate_pending orch pending resolved src tgt progress_cb log_cb w
                     else (Inr resolved, w)))"

text \<open>
  The last three lines of \<open>translate\<close>: \<open>missing\<close>, the check that raises, and the returned
  list \<open>[text or "" for text in resolved]\<close>.
\<close>

definition missing_indexes :: "string option list \<Rightarrow> nat list" where
  "missing_indexes resolved = filter (\<lambda>idx. resolved ! idx = None) [0..<length resolved]"

definition verify :: "string option list \<Rightarrow> py_error + string list" where
  "verify resolved =
     (let missing = missing_indexes resolved
      in if missing \<noteq> [] then Inl (MissingTranslations missing)
         else Inr (map (\<lambda>t. case t of None \<Rightarrow> [] | Some s \<Rightarrow> s) resolved))"

definition translate :: "'b TranslationOrchestrator \<Rightarrow> string list \<Rightarrow> string \<Rightarrow> string \<Rightarrow> bool
    \<Rightarrow> bool \<Rightarrow> 'b world \<Rightarrow> (py_error + string list) \<times> 'b world" where
  "translate orch txts src tgt progress_cb log_cb w =
     (case fill_slots orch txts src tgt progress_cb log_cb w of
        (Inl e, w) \<Rightarrow> (Inl e, w)
      | (Inr resolved, w) \<Rightarrow> (verify resolved, w))"

text \<open>
  To speak about the backend calls of one run: the requests that a run from \<open>w\<close> to \<open>w'\<close>
  added, and the property that it only added requests that satisfy \<open>P\<close>.
\<close>

definition new_requests :: "'b world \<Rightarrow> 'b world \<Rightarrow> TranslationRequest list" where
  "new_requests w w' = drop (length (requests w)) (requests w')"

definition extends_by :: "(TranslationRequest \<Rightarrow> bool) \<Rightarrow> 'b world \<Rightarrow> 'b world \<Rightarrow> bool" where
  "extends_by P w w' = (\<exists>new. requests w' = requests w @ new \<and> list_all P new)"

text \<open>
  A test backend that wraps every text in brackets and counts its calls, an orchestrator
  around it with the default settings (\<open>config.py\<close>), and a world whose durable cache holds
  \<open>en::tr::Hello\<close>.
\<close>

definition bracket_backend :: "TranslationRequest \<Rightarrow> nat \<Rightarrow> (py_error + string list) \<times> nat" where
  "bracket_backend request n = (Inr (map (\<lambda>t. ''<'' @ t @ ''>'') (req_texts request)), Suc n)"

definition sample_orchestrator :: "nat TranslationOrchestrator" where
  "sample_orchestrator =
     \<lparr>translator = bracket_backend, retry_policy = default_retry_policy,
      batch_char_limit = 6000, batch_size = 20, seq_ratio = difflib_ratio,
      json_dump = (\<lambda>d. [])\<rparr>"

definition sample_world :: "(string \<rightharpoonup> string) \<Rightarrow> (string \<rightharpoonup> string) \<Rightarrow> nat world" where
  "sample_world session durable =
     \<lparr>backend = 0, requests = [], session_cache = session,
      memory = \<lparr>tm_path = ''memory.json'', auto_flush = True, tm_data = durable, dirty = False\<rparr>,
      files = Map.empty, progress_calls = [], log_calls = [], sleeps = []\<rparr>"

text \<open>
  A backend that returns the empty string for every text, as the racing backend does for
  the texts it could not translate, and the world after one call of \<open>translate\<close> with it.
\<close>

definition blank_backend :: "TranslationRequest \<Rightarrow> nat \<Rightarrow> (py_error + string list) \<times> nat" where
  "blank_backend request n = (Inr (map (\<lambda>t. []) (req_texts request)), Suc n)"

definition blank_orchestrator :: "nat TranslationOrchestrator" where
  "blank_orchestrator = sample_orchestrator\<lparr>translator := blank_backend\<rparr>"

definition after_blank_run :: "nat world" where
  "after_blank_run =
     snd (translate blank_orchestrator [''Hello''] ''en'' ''tr'' True True
            (sample_world Map.empty Map.empty))"

section \<open>Properties of the cache key\<close>

text \<open>
  C10: \<open>make_cache_key\<close> is not injective. The text \<open>c::x\<close> translated from \<open>a\<close> to \<open>b\<close> and
  the text \<open>x\<close> translated from \<open>a\<close> to \<open>b::c\<close> are different units of work with the same key
  \<open>a::b::c::x\<close>.
\<close>

theorem make_cache_key_not_injective:
  "make_cache_key ''c::x'' ''a'' ''b'' = make_cache_key ''x'' ''a'' ''b::c''
   \<and> (''c::x'', ''a'', ''b'') \<noteq> (''x'', ''a'', ''b::c'')
   \<and> make_cache_key ''c::x'' ''a'' ''b'' = ''a::b::c::x''"
  by (simp add: make_cache_key_def)

section \<open>Properties of the batch planner\<close>

lemma batch_loop_concat:
  "concat (batch_loop sz mc mi items batches current cc) = concat batches @ current @ items"
  by (induction sz mc mi items batches current cc rule: batch_loop.induct)
     (simp_all add: Let_def)

lemma batch_loop_ok:
  assumes "1 \<le> mi"
      and "\<forall>b \<in> set batches. batch_ok sz mc mi b"
      and "current \<noteq> [] \<Longrightarrow> batch_ok sz mc mi current"
      and "cc = batch_chars sz current"
  shows "\<forall>b \<in> set (batch_loop sz mc mi items batches current cc). batch_ok sz mc mi b"
  using assms
proof (induction sz mc mi items batches current cc rule: batch_loop.induct)
  case (1 sz mc mi batches current cc)
  then show ?case by auto
next
  case (2 sz mc mi item items batches current cc)
  show ?case
  proof (cases "current \<noteq> [] \<and> (int cc + int (sz item) > mc \<or> int (length current) \<ge> mi)")
    case True
    have single: "batch_ok sz mc mi [item]"
      using "2.prems"(1) by (simp add: batch_ok_def)
    have closed: "\<forall>b \<in> set (batches @ [current]). batch_ok sz mc mi b"
      using True "2.prems"(2,3) by auto
    have "\<forall>b \<in> set (batch_loop sz mc mi items (batches @ [current]) [item] (0 + sz item)).
            batch_ok sz mc mi b"
      using "2.IH"(1) [OF refl True "2.prems"(1) closed] single
      by (simp add: batch_chars_def)
    with True show ?thesis by (simp add: Let_def)
  next
    case False
    have grown: "batch_ok sz mc mi (current @ [item])"
    proof (cases "current = []")
      case True
      then show ?thesis using "2.prems"(1) by (simp add: batch_ok_def)
    next
      case nonempty: False
      with False have "int cc + int (sz item) \<le> mc" and "int (length current) < mi"
        by auto
      then show ?thesis
        using "2.prems"(4) by (simp add: batch_ok_def batch_chars_def)
    qed
    have "\<forall>b \<in> set (batch_loop sz mc mi items batches (current @ [item]) (cc + sz item)).
            batch_ok sz mc mi b"
      using "2.IH"(2) [OF refl False "2.prems"(1,2)] grown "2.prems"(4)
      by (simp add: batch_chars_def)
    moreover have "batch_loop sz mc mi (item # items) batches current cc
        = batch_loop sz mc mi items batches (current @ [item]) (cc + sz item)"
      unfolding batch_loop.simps Let_def using False by (rule if_not_P)
    ultimately show ?thesis by simp
  qed
qed

text \<open>
  C3 (as stated, refuted): with \<open>max_chars = 3\<close> and \<open>max_items = 5\<close> the single entry
  \<open>abcdef\<close> is planned as a batch of its own whose character count, 6, exceeds \<open>max_chars\<close>;
  the orchestrator's planner does the same.
\<close>

theorem chunk_exceeds_max_chars:
  "chunk_by_char_limit [''abcdef''] 3 5 = [[''abcdef'']]
   \<and> \<not> int (batch_chars length [''abcdef'']) \<le> 3
   \<and> build_batches 3 5 [\<lparr>pe_text = ''abcdef'', indexes = [0], cache_key = ''k''\<rparr>]
       = [[\<lparr>pe_text = ''abcdef'', indexes = [0], cache_key = ''k''\<rparr>]]"
  by (simp add: chunk_by_char_limit_def build_batches_def batch_chars_def)

text \<open>
  C3 (amended): for every list of entries, every \<open>max_chars\<close> and every \<open>max_items > 0\<close>, both
  planners produce batches that are never empty, never hold more than \<open>max_items\<close> entries,
  and never exceed \<open>max_chars\<close> characters unless the batch is a single entry; the
  concatenation of the batches is the input list.
\<close>

theorem batch_planner_bounds:
  assumes "0 < max_items"
  shows "concat (chunk_by_char_limit items max_chars max_items) = items
       \<and> (\<forall>b \<in> set (chunk_by_char_limit items max_chars max_items).
             b \<noteq> [] \<and> int (length b) \<le> max_items
           \<and> (int (sum_list (map length b)) \<le> max_chars \<or> length b = 1))
       \<and> concat (build_batches max_chars max_items entries) = entries
       \<and> (\<forall>b \<in> set (build_batches max_chars max_items entries).
             b \<noteq> [] \<and> int (length b) \<le> max_items
           \<and> (int (sum_list (map (\<lambda>e. length (pe_text e)) b)) \<le> max_chars \<or> length b = 1))"
proof -
  have mi: "1 \<le> max_items" using assms by simp
  have a: "\<forall>b \<in> set (batch_loop sz max_chars max_items xs [] [] 0).
             batch_ok sz max_chars max_items b" for sz :: "'b \<Rightarrow> nat" and xs
    by (rule batch_loop_ok [OF mi]) (simp_all add: batch_chars_def)
  show ?thesis
    using a [of length items] a [of "\<lambda>e. length (pe_text e)" entries]
    by (simp add: chunk_by_char_limit_def build_batches_def batch_loop_concat
                  batch_ok_def batch_chars_def)
qed

theorem batch_planner_bounds_witness:
  "(0::int) < 4
   \<and> chunk_by_char_limit [''abcde'', ''fghij'', ''k''] 10 4 = [[''abcde'', ''fghij''], [''k'']]
   \<and> concat (chunk_by_char_limit [''abcde'', ''fghij'', ''k''] 10 4)
       = [''abcde'', ''fghij'', ''k'']
   \<and> list_all (\<lambda>b. b \<noteq> [] \<and> int (length b) \<le> 4 \<and> int (sum_list (map length b)) \<le> 10)
         (chunk_by_char_limit [''abcde'', ''fghij'', ''k''] 10 4)"
proof -
  have h: "(0::int) < 4" by simp
  have e: "chunk_by_char_limit [''abcde'', ''fghij'', ''k''] 10 4
             = [[''abcde'', ''fghij''], [''k'']]"
    by (simp add: chunk_by_char_limit_def)
  show ?thesis
    using batch_planner_bounds [OF h, of "[''abcde'', ''fghij'', ''k'']" 10 "[]"] e
    by simp
qed

section \<open>Properties of the deduplicator\<close>

lemma find_match_from_bound:
  "find_match_from r th c pool i = Some m \<Longrightarrow> i \<le> m \<and> m < i + length pool"
  by (induction pool arbitrary: i) (fastforce split: if_splits)+

lemma find_match_bound: "find_match r c pool th = Some m \<Longrightarrow> m < length pool"
  using find_match_from_bound [of r th c pool 0 m] by (simp add: find_match_def)

lemma mset_concat_update:
  "m < length gs \<Longrightarrow> mset (concat (gs[m := gs ! m @ [x]])) = add_mset x (mset (concat gs))"
proof (induction gs arbitrary: m)
  case Nil
  then show ?case by simp
next
  case (Cons g gs)
  then show ?case by (cases m) simp_all
qed

lemma dedup_loop_partition:
  assumes "length unique = length gs"
      and "mset (concat gs) = mset [0..<idx]"
      and "[] \<notin> set gs"
  shows "\<exists>res. dedup_loop r th idx texts unique gs = Inr res
           \<and> length (groups res) = length (unique_texts res)
           \<and> mset (concat (groups res)) = mset [0..<idx + length texts]
           \<and> [] \<notin> set (groups res)"
  using assms
proof (induction texts arbitrary: idx unique gs)
  case Nil
  then show ?case by simp
next
  case (Cons t texts)
  show ?case
  proof (cases "find_match r (strip t) unique th")
    case None
    have "\<exists>res. dedup_loop r th (Suc idx) texts (unique @ [t]) (gs @ [[idx]]) = Inr res
           \<and> length (groups res) = length (unique_texts res)
           \<and> mset (concat (groups res)) = mset [0..<Suc idx + length texts]
           \<and> [] \<notin> set (groups res)"
      using Cons.prems by (intro Cons.IH) simp_all
    with None show ?thesis by simp
  next
    case (Some m)
    then have m: "m < length gs"
      using find_match_bound Cons.prems(1) by fastforce
    have nonempty: "[] \<notin> set (gs[m := gs ! m @ [idx]])"
      using Cons.prems(3) m by (auto simp: set_conv_nth nth_list_update)
    have "\<exists>res. dedup_loop r th (Suc idx) texts unique (gs[m := gs ! m @ [idx]]) = Inr res
           \<and> length (groups res) = length (unique_texts res)
           \<and> mset (concat (groups res)) = mset [0..<Suc idx + length texts]
           \<and> [] \<notin> set (groups res)"
      using Cons.prems(1,2) m nonempty
      by (intro Cons.IH) (simp_all add: mset_concat_update)
    with Some m show ?thesis by simp
  qed
qed

text \<open>
  C6: for every list of texts (and every similarity function and threshold),
  \<open>deduplicate_texts\<close> returns a result, never an IndexError; it has as many groups as unique
  texts, and the groups partition the indices \<open>0..N-1\<close>: listed one after the other they hold
  every index below \<open>N\<close> exactly once and nothing else. No group is empty.
\<close>

theorem deduplicate_texts_partition:
  "\<exists>res. deduplicate_texts ratio texts threshold = Inr res
     \<and> length (groups res) = length (unique_texts res)
     \<and> mset (concat (groups res)) = mset [0..<length texts]
     \<and> distinct (concat (groups res))
     \<and> set (concat (groups res)) = {0..<length texts}
     \<and> [] \<notin> set (groups res)"
proof -
  obtain res where res: "dedup_loop ratio threshold 0 texts [] [] = Inr res"
      "length (groups res) = length (unique_texts res)"
      "mset (concat (groups res)) = mset [0..<0 + length texts]"
      "[] \<notin> set (groups res)"
    using dedup_loop_partition [of "[]" "[]" 0 ratio threshold texts] by auto
  from res(3) have perm: "mset (concat (groups res)) = mset [0..<length texts]" by simp
  have "distinct (concat (groups res))"
    using mset_eq_imp_distinct_iff [OF perm] by simp
  moreover have "set (concat (groups res)) = {0..<length texts}"
    using mset_eq_setD [OF perm] by simp
  ultimately show ?thesis
    using res(1,2,4) perm by (auto simp: deduplicate_texts_def)
qed

section \<open>Exact duplicates in the deduplicator\<close>

lemma find_match_from_append:
  "find_match_from r th c (pool @ extra) i =
     (case find_match_from r th c pool i of
        Some m \<Rightarrow> Some m
      | None \<Rightarrow> find_match_from r th c extra (i + length pool))"
  by (induction pool arbitrary: i) (simp_all split: option.splits)

lemma find_match_append_Some:
  "find_match r c pool th = Some m \<Longrightarrow> find_match r c (pool @ extra) th = Some m"
  by (simp add: find_match_def find_match_from_append)

lemma find_match_append_self:
  "find_match r c pool th = None \<Longrightarrow> find_match r c (pool @ [c]) th = Some (length pool)"
  by (simp add: find_match_def find_match_from_append)

lemma at_home_new_group:
  assumes "at_home r th unique grps i x" and "length unique = length grps"
  shows "at_home r th (unique @ [t]) (grps @ [[idx]]) i x"
  using assms
  by (auto simp: at_home_def find_match_append_Some nth_append split: option.splits)

lemma at_home_joined:
  assumes "at_home r th unique grps i x" and "m < length grps"
  shows "at_home r th unique (grps[m := grps ! m @ [idx]]) i x"
  using assms by (auto simp: at_home_def nth_list_update split: option.splits)

lemma dedup_loop_at_home:
  assumes "dedup_loop r th idx rest unique grps = Inr res"
      and "length unique = length grps"
      and "\<forall>(i, x) \<in> T. at_home r th unique grps i x"
  shows "(\<forall>(i, x) \<in> T. at_home r th (unique_texts res) (groups res) i x)
       \<and> (\<forall>k < length rest. strip (rest ! k) = rest ! k
             \<longrightarrow> at_home r th (unique_texts res) (groups res) (idx + k) (rest ! k))"
  using assms
proof (induction rest arbitrary: idx unique grps T)
  case Nil
  then show ?case by auto
next
  case (Cons t rest)
  let ?T = "T \<union> (if strip t = t then {(idx, t)} else {})"
  have goal: "(\<forall>(i, x) \<in> T. at_home r th (unique_texts res) (groups res) i x)
       \<and> (\<forall>k < length (t # rest). strip ((t # rest) ! k) = (t # rest) ! k
             \<longrightarrow> at_home r th (unique_texts res) (groups res) (idx + k) ((t # rest) ! k))"
    if ih: "(\<forall>(i, x) \<in> ?T. at_home r th (unique_texts res) (groups res) i x)
       \<and> (\<forall>k < length rest. strip (rest ! k) = rest ! k
             \<longrightarrow> at_home r th (unique_texts res) (groups res) (Suc idx + k) (rest ! k))"
  proof (intro conjI allI impI)
    show "\<forall>(i, x) \<in> T. at_home r th (unique_texts res) (groups res) i x"
      using ih by auto
  next
    fix k
    assume k: "k < length (t # rest)" and s: "strip ((t # rest) ! k) = (t # rest) ! k"
    show "at_home r th (unique_texts res) (groups res) (idx + k) ((t # rest) ! k)"
    proof (cases k)
      case 0
      with s ih show ?thesis by auto
    next
      case (Suc k')
      with k s ih show ?thesis by auto
    qed
  qed
  show ?case
  proof (cases "find_match r (strip t) unique th")
    case None
    have run: "dedup_loop r th (Suc idx) rest (unique @ [t]) (grps @ [[idx]]) = Inr res"
      using Cons.prems(1) None by simp
    have new: "at_home r th (unique @ [t]) (grps @ [[idx]]) idx t" if "strip t = t"
      using that None Cons.prems(2)
      by (simp add: at_home_def find_match_append_self)
    have inv: "\<forall>(i, x) \<in> ?T. at_home r th (unique @ [t]) (grps @ [[idx]]) i x"
      using Cons.prems(2,3) new by (auto intro: at_home_new_group)
    show ?thesis
      by (rule goal) (rule Cons.IH [OF run _ inv], simp add: Cons.prems(2))
  next
    case (Some m)
    then have m: "m < length grps"
      using find_match_bound Cons.prems(2) by fastforce
    have run: "dedup_loop r th (Suc idx) rest unique (grps[m := grps ! m @ [idx]]) = Inr res"
      using Cons.prems(1) Some m by simp
    have new: "at_home r th unique (grps[m := grps ! m @ [idx]]) idx t" if "strip t = t"
      using that Some m by (simp add: at_home_def)
    have inv: "\<forall>(i, x) \<in> ?T. at_home r th unique (grps[m := grps ! m @ [idx]]) i x"
      using Cons.prems(3) new m by (auto intro: at_home_joined)
    show ?thesis
      by (rule goal) (rule Cons.IH [OF run _ inv], simp add: Cons.prems(2))
  qed
qed

text \<open>
  Where the defect does not reach: two positions that hold the same string, a string with
  no leading or trailing whitespace, are always in the same group, whatever the similarity
  function and the threshold.
\<close>

lemma unpadded_duplicates_share_group:
  assumes "deduplicate_texts r txts th = Inr res"
      and "p < length txts" and "q < length txts"
      and "txts ! p = txts ! q" and "strip (txts ! p) = txts ! p"
  shows "\<exists>g < length (groups res). p \<in> set (groups res ! g) \<and> q \<in> set (groups res ! g)"
proof -
  have h: "\<forall>k < length txts. strip (txts ! k) = txts ! k
             \<longrightarrow> at_home r th (unique_texts res) (groups res) (0 + k) (txts ! k)"
    using dedup_loop_at_home [of r th 0 txts "[]" "[]" res "{}"] assms(1)
    by (simp add: deduplicate_texts_def)
  have "at_home r th (unique_texts res) (groups res) p (txts ! p)"
    using h assms(2,5) by simp
  moreover have "at_home r th (unique_texts res) (groups res) q (txts ! p)"
    using h assms(3,4,5) by simp
  ultimately show ?thesis
    by (auto simp: at_home_def split: option.splits)
qed

text \<open>
  C5 (fails on the code): the list \<open>["Hi ", "Hi "]\<close> holds the same string at positions 0 and
  1, and \<open>deduplicate_texts\<close> puts the two positions in different groups. The second
  \<open>"Hi "\<close> is stripped to \<open>"Hi"\<close> before \<open>_find_match\<close> compares it with the pool, which
  holds the first text unstripped: \<open>"Hi" == "Hi "\<close> is false and the ratio of the two is
  \<open>2 * 2 / 5 = 0.8\<close>, below the threshold 0.985.
\<close>

theorem padded_duplicates_not_grouped:
  "strip ''Hi '' = ''Hi''
   \<and> difflib_ratio ''Hi'' ''Hi '' = 4 / 5
   \<and> deduplicate_texts difflib_ratio [''Hi '', ''Hi ''] default_threshold
       = Inr \<lparr>unique_texts = [''Hi '', ''Hi ''], groups = [[0], [1]]\<rparr>"
proof -
  have s: "strip ''Hi '' = ''Hi''"
    by (simp add: strip_def is_space_def)
  have r: "difflib_ratio ''Hi'' ''Hi '' = 4 / 5"
    by (simp add: difflib_ratio_def find_longest_match_def better_def)
  show ?thesis
    by (simp add: deduplicate_texts_def find_match_def sequence_ratio_def s r
                  default_threshold_def)
qed

section \<open>Properties of the retry executor\<close>

lemma fails_first_Suc:
  assumes "fails_first action (Suc m) s"
  obtains exc s' where "action s = (Inl exc, s')" and "is_exception exc"
    and "fails_first action m s'"
proof -
  obtain r s' where act: "action s = (r, s')" by (cases "action s")
  with assms obtain exc where "r = Inl exc" "is_exception exc" "fails_first action m s'"
    by (cases r) auto
  with act that show ?thesis by blast
qed

lemma retry_loop_success:
  assumes "fails_first action m s"
      and "fst (action (after_calls action m s)) = Inr v"
      and "int (a + m + 1) \<le> max_attempts policy"
  shows "\<exists>tr'. retry_loop action policy log_cb a d s tr
            = (Inr v, after_calls action (Suc m) s, tr') \<and> attempts tr' = a + m + 1"
  using assms
proof (induction m arbitrary: s a d tr)
  case 0
  then show ?case
    by (subst retry_loop.simps) (auto simp: Let_def split: prod.splits sum.splits)
next
  case (Suc m)
  obtain exc s' where act: "action s = (Inl exc, s')" and exc: "is_exception exc"
      and rest: "fails_first action m s'"
    using Suc.prems(1) by (rule fails_first_Suc)
  have more: "\<not> int (a + 1) \<ge> max_attempts policy"
    using Suc.prems(3) by simp
  have "\<exists>tr'. retry_loop action policy log_cb (a + 1) (d * backoff_factor policy) s' tr0
            = (Inr v, after_calls action (Suc m) s', tr') \<and> attempts tr' = (a + 1) + m + 1"
    for tr0
    using Suc.prems(2,3) act rest by (intro Suc.IH) simp_all
  then show ?case
    using act exc more by (subst retry_loop.simps) (simp add: Let_def)
qed

lemma retry_loop_exhausted:
  assumes "fails_first action (Suc m) s"
      and "int (a + m + 1) = max_attempts policy"
  shows "\<exists>tr'. retry_loop action policy log_cb a d s tr
            = (fst (action (after_calls action m s)), after_calls action (Suc m) s, tr')
          \<and> attempts tr' = a + m + 1 \<and> isl (fst (action (after_calls action m s)))"
  using assms
proof (induction m arbitrary: s a d tr)
  case 0
  obtain exc s' where act: "action s = (Inl exc, s')" and exc: "is_exception exc"
    using "0.prems"(1) by (rule fails_first_Suc)
  then show ?case
    using "0.prems"(2) by (subst retry_loop.simps) (simp add: Let_def)
next
  case (Suc m)
  obtain exc s' where act: "action s = (Inl exc, s')" and exc: "is_exception exc"
      and rest: "fails_first action (Suc m) s'"
    using Suc.prems(1) by (rule fails_first_Suc)
  have more: "\<not> int (a + 1) \<ge> max_attempts policy"
    using Suc.prems(2) by simp
  have "\<exists>tr'. retry_loop action policy log_cb (a + 1) (d * backoff_factor policy) s' tr0
            = (fst (action (after_calls action m s')), after_calls action (Suc m) s', tr')
          \<and> attempts tr' = (a + 1) + m + 1 \<and> isl (fst (action (after_calls action m s')))"
    for tr0
    using Suc.prems(2) rest by (intro Suc.IH) simp_all
  then show ?case
    using act exc more by (subst retry_loop.simps) (simp add: Let_def)
qed

lemma retry_loop_not_caught:
  assumes "fails_first action m s"
      and "fst (action (after_calls action m s)) = Inl exc"
      and "\<not> is_exception exc"
      and "int (a + m + 1) \<le> max_attempts policy"
  shows "\<exists>tr'. retry_loop action policy log_cb a d s tr
            = (Inl exc, after_calls action (Suc m) s, tr') \<and> attempts tr' = a + m + 1
          \<and> length (logged tr') = length (logged tr) + (if log_cb then m else 0)"
  using assms
proof (induction m arbitrary: s a d tr)
  case 0
  then show ?case
    by (subst retry_loop.simps) (auto simp: Let_def split: prod.splits sum.splits)
next
  case (Suc m)
  obtain e s' where act: "action s = (Inl e, s')" and e: "is_exception e"
      and rest: "fails_first action m s'"
    using Suc.prems(1) by (rule fails_first_Suc)
  have more: "\<not> int (a + 1) \<ge> max_attempts policy"
    using Suc.prems(4) by simp
  have "\<exists>tr'. retry_loop action policy log_cb (a + 1) (d * backoff_factor policy) s' tr0
            = (Inl exc, after_calls action (Suc m) s', tr') \<and> attempts tr' = (a + 1) + m + 1
          \<and> length (logged tr') = length (logged tr0) + (if log_cb then m else 0)"
    for tr0
    using Suc.prems(2,3,4) act rest by (intro Suc.IH) simp_all
  from this [of "(if log_cb then tr\<lparr>logged := logged tr @ [(a + 1, e)]\<rparr> else tr)
                   \<lparr>slept := slept (if log_cb then tr\<lparr>logged := logged tr @ [(a + 1, e)]\<rparr>
                                     else tr) @ [d]\<rparr>"]
  show ?case
    using act e more by (subst retry_loop.simps) (auto simp: Let_def)
qed

text \<open>
  C4 (as stated, refuted): the action \<open>cancelled\<close> raises on its first attempt and succeeds
  on its second, and \<open>max_attempts\<close> is 4. \<open>_retry\<close> does not return the success value
  after two calls: the failure of the first attempt is an \<open>asyncio.CancelledError\<close>, which
  \<open>except Exception\<close> does not catch, so \<open>_retry\<close> raises it after exactly one call, without
  a log entry.
\<close>

theorem cancelled_action_not_retried:
  "call_result cancelled 0 1 = Inl CancelledError
   \<and> call_result cancelled 0 2 = Inr [''Merhaba'']
   \<and> max_attempts default_retry_policy = 4
   \<and> retry cancelled default_retry_policy True 0
       = (Inl CancelledError, 1, \<lparr>attempts = 1, logged = [], slept = []\<rparr>)"
  by (simp add: call_result_def cancelled_def eval_nat_numeral default_retry_policy_def
                retry_def retry_loop.simps)

text \<open>
  C4 (amended): with \<open>max_attempts = k\<close>, and a failed attempt being one that raises an
  exception of class \<open>Exception\<close>: if the first \<open>j - 1\<close> attempts fail and the \<open>j\<close>-th call
  returns \<open>v\<close>, for some \<open>1 \<le> j \<le> k\<close>, then \<open>_retry\<close> returns \<open>v\<close> after exactly \<open>j\<close> calls of
  the action; if the first \<open>k\<close> attempts all fail (\<open>k \<ge> 1\<close>), then \<open>_retry\<close> raises the
  exception of the \<open>k\<close>-th call, unchanged, after exactly \<open>k\<close> calls. An exception that is
  not an \<open>Exception\<close>, raised by the \<open>j\<close>-th call after \<open>j - 1\<close> failed attempts
  (\<open>1 \<le> j \<le> k\<close>), is not retried: \<open>_retry\<close> raises it, unchanged, after exactly \<open>j\<close> calls,
  and logs the \<open>j - 1\<close> failed attempts only.
\<close>

theorem retry_attempts:
  "(1 \<le> j \<and> int j \<le> max_attempts policy \<and> fails_first action (j - 1) s
      \<and> call_result action s j = Inr v
     \<longrightarrow> (\<exists>tr. retry action policy log_cb s = (Inr v, after_calls action j s, tr)
              \<and> attempts tr = j))
   \<and> (1 \<le> k \<and> int k = max_attempts policy \<and> fails_first action k s
     \<longrightarrow> (\<exists>exc tr. call_result action s k = Inl exc
              \<and> retry action policy log_cb s = (Inl exc, after_calls action k s, tr)
              \<and> attempts tr = k))
   \<and> (1 \<le> i \<and> int i \<le> max_attempts policy \<and> fails_first action (i - 1) s
      \<and> call_result action s i = Inl base \<and> \<not> is_exception base
     \<longrightarrow> (\<exists>tr. retry action policy log_cb s = (Inl base, after_calls action i s, tr)
              \<and> attempts tr = i
              \<and> length (logged tr) = (if log_cb then i - 1 else 0)))"
proof (intro conjI impI)
  assume a: "1 \<le> j \<and> int j \<le> max_attempts policy \<and> fails_first action (j - 1) s
      \<and> call_result action s j = Inr v"
  then obtain m where m: "j = Suc m" by (cases j) auto
  show "\<exists>tr. retry action policy log_cb s = (Inr v, after_calls action j s, tr)
              \<and> attempts tr = j"
    using retry_loop_success [of action m s v 0 policy log_cb 1
                                 "\<lparr>attempts = 0, logged = [], slept = []\<rparr>"] a m
    by (simp add: retry_def call_result_def)
next
  assume a: "1 \<le> k \<and> int k = max_attempts policy \<and> fails_first action k s"
  then obtain m where m: "k = Suc m" by (cases k) auto
  obtain tr' where r: "retry_loop action policy log_cb 0 1 s \<lparr>attempts = 0, logged = [], slept = []\<rparr>
            = (fst (action (after_calls action m s)), after_calls action (Suc m) s, tr')"
          "attempts tr' = 0 + m + 1" "isl (fst (action (after_calls action m s)))"
    using retry_loop_exhausted [of action m s 0 policy log_cb 1
                                   "\<lparr>attempts = 0, logged = [], slept = []\<rparr>"] a m
    by auto
  from r(3) obtain exc where "fst (action (after_calls action m s)) = Inl exc"
    by (cases "fst (action (after_calls action m s))") auto
  then show "\<exists>exc tr. call_result action s k = Inl exc
              \<and> retry action policy log_cb s = (Inl exc, after_calls action k s, tr)
              \<and> attempts tr = k"
    using r(1,2) m by (simp add: retry_def call_result_def)
next
  assume a: "1 \<le> i \<and> int i \<le> max_attempts policy \<and> fails_first action (i - 1) s
      \<and> call_result action s i = Inl base \<and> \<not> is_exception base"
  then obtain m where m: "i = Suc m" by (cases i) auto
  show "\<exists>tr. retry action policy log_cb s = (Inl base, after_calls action i s, tr)
              \<and> attempts tr = i
              \<and> length (logged tr) = (if log_cb then i - 1 else 0)"
    using retry_loop_not_caught [of action m s base 0 policy log_cb 1
                                    "\<lparr>attempts = 0, logged = [], slept = []\<rparr>"] a m
    by (cases log_cb) (auto simp: retry_def call_result_def)
qed

theorem retry_attempts_witness:
  "fails_first flaky 3 0 \<and> call_result flaky 0 4 = Inr [''Merhaba'']
   \<and> retry flaky default_retry_policy True 0
       = (Inr [''Merhaba''], 4,
          \<lparr>attempts = 4,
             logged = [(1, BackendError ''timeout''), (2, BackendError ''timeout''),
                       (3, BackendError ''timeout'')],
             slept = [1, 3 / 2, 9 / 4]\<rparr>)
   \<and> fails_first broken 4 0 \<and> call_result broken 0 4 = Inl (BackendError ''quota'')
   \<and> retry broken default_retry_policy True 0
       = (Inl (BackendError ''quota''), 4,
          \<lparr>attempts = 4,
             logged = [(1, BackendError ''timeout''), (2, BackendError ''timeout''),
                       (3, BackendError ''timeout''), (4, BackendError ''quota'')],
             slept = [1, 3 / 2, 9 / 4]\<rparr>)
   \<and> fails_first cancelled 0 0 \<and> call_result cancelled 0 1 = Inl CancelledError
   \<and> \<not> is_exception CancelledError
   \<and> fst (retry cancelled default_retry_policy True 0) = Inl CancelledError
   \<and> attempts (snd (snd (retry cancelled default_retry_policy True 0))) = 1
   \<and> logged (snd (snd (retry cancelled default_retry_policy True 0))) = []"
proof -
  have f: "fails_first flaky 3 0" "call_result flaky 0 4 = Inr [''Merhaba'']"
    by (simp_all add: flaky_def call_result_def numeral_3_eq_3 eval_nat_numeral)
  have b: "fails_first broken 4 0" "call_result broken 0 4 = Inl (BackendError ''quota'')"
    by (simp_all add: broken_def call_result_def eval_nat_numeral)
  have c: "fails_first cancelled 0 0" "call_result cancelled 0 1 = Inl CancelledError"
    by (simp_all add: cancelled_def call_result_def)
  have "after_calls flaky 4 0 = 4" "after_calls broken 4 0 = 4" "after_calls cancelled 1 0 = 1"
    by (simp_all add: flaky_def broken_def cancelled_def eval_nat_numeral)
  moreover have "retry flaky default_retry_policy True 0
       = (Inr [''Merhaba''], 4,
          \<lparr>attempts = 4,
             logged = [(1, BackendError ''timeout''), (2, BackendError ''timeout''),
                       (3, BackendError ''timeout'')],
             slept = [1, 3 / 2, 9 / 4]\<rparr>)"
    by (simp add: retry_def retry_loop.simps flaky_def default_retry_policy_def)
  moreover have "retry broken default_retry_policy True 0
       = (Inl (BackendError ''quota''), 4,
          \<lparr>attempts = 4,
             logged = [(1, BackendError ''timeout''), (2, BackendError ''timeout''),
                       (3, BackendError ''timeout''), (4, BackendError ''quota'')],
             slept = [1, 3 / 2, 9 / 4]\<rparr>)"
    by (simp add: retry_def retry_loop.simps broken_def default_retry_policy_def)
  moreover have "max_attempts default_retry_policy = 4"
    by (simp add: default_retry_policy_def)
  ultimately show ?thesis
    using f b c
      retry_attempts [where j = 4 and k = 4 and i = 1 and policy = default_retry_policy
                        and action = flaky and s = 0 and v = "[''Merhaba'']" and log_cb = True
                        and base = CancelledError]
      retry_attempts [where j = 4 and k = 4 and i = 1 and policy = default_retry_policy
                        and action = broken and s = 0 and v = "[''Merhaba'']" and log_cb = True
                        and base = CancelledError]
      retry_attempts [where j = 4 and k = 4 and i = 1 and policy = default_retry_policy
                        and action = cancelled and s = 0 and v = "[''Merhaba'']"
                        and log_cb = True and base = CancelledError]
    by auto
qed

section \<open>Properties of the racing backend\<close>

lemma min_failures_least:
  "ep \<in> set google_endpoints \<Longrightarrow> min_failures g \<le> failures_get (endpoint_failures g) ep"
  unfolding min_failures_def
  by (subst min_list_Min) (auto simp: google_endpoints_def)

lemma min_failures_attained:
  "\<exists>ep \<in> set google_endpoints. failures_get (endpoint_failures g) ep = min_failures g"
proof -
  let ?xs = "map (failures_get (endpoint_failures g)) google_endpoints"
  have ne: "?xs \<noteq> []" by (simp add: google_endpoints_def)
  have "Min (set ?xs) \<in> set ?xs" using ne by (intro Min_in) simp_all
  then have "min_list ?xs \<in> set ?xs" using ne by (simp add: min_list_Min)
  then show ?thesis unfolding min_failures_def by auto
qed

lemma available_nonempty: "available g \<noteq> []"
proof -
  obtain ep where "ep \<in> set google_endpoints"
      "failures_get (endpoint_failures g) ep = min_failures g"
    using min_failures_attained by blast
  then have "ep \<in> set (available g)" by (simp add: available_def)
  then show ?thesis by auto
qed

lemma get_next_endpoint_eq:
  "get_next_endpoint g =
     (available g ! ((endpoint_index g + 1) mod length (available g)),
      g\<lparr>endpoint_index := (endpoint_index g + 1) mod length (available g)\<rparr>)"
  by (simp add: get_next_endpoint_def available_nonempty)

lemma get_next_endpoint_available: "fst (get_next_endpoint g) \<in> set (available g)"
  using available_nonempty [of g] by (simp add: get_next_endpoint_eq)

text \<open>
  C7: for every state of the failure counters, \<open>_get_next_endpoint\<close> returns one of the
  endpoints, and the failure count of the endpoint it returns is at most 2 above the failure
  count of every endpoint, hence of the minimum. Some endpoint always qualifies (one with
  the minimum count does), so the branch that clears the counters is never taken and the
  counters are left as they were.
\<close>

theorem get_next_endpoint_within_two:
  "fst (get_next_endpoint g) \<in> set google_endpoints
   \<and> failures_get (endpoint_failures g) (fst (get_next_endpoint g)) \<le> min_failures g + 2
   \<and> (\<forall>ep \<in> set google_endpoints.
         failures_get (endpoint_failures g) (fst (get_next_endpoint g))
           \<le> failures_get (endpoint_failures g) ep + 2)
   \<and> available g \<noteq> []
   \<and> endpoint_failures (snd (get_next_endpoint g)) = endpoint_failures g"
proof -
  have a: "fst (get_next_endpoint g) \<in> set (available g)"
    by (rule get_next_endpoint_available)
  then have b: "failures_get (endpoint_failures g) (fst (get_next_endpoint g)) \<le> min_failures g + 2"
    by (simp add: available_def)
  have "failures_get (endpoint_failures g) (fst (get_next_endpoint g))
           \<le> failures_get (endpoint_failures g) ep + 2" if "ep \<in> set google_endpoints" for ep
    using b min_failures_least [OF that, of g] by simp
  moreover have "fst (get_next_endpoint g) \<in> set google_endpoints"
    using a by (simp add: available_def)
  ultimately show ?thesis
    using b available_nonempty [of g] by (simp add: get_next_endpoint_eq)
qed

theorem get_next_endpoint_within_two_witness:
  "get_next_endpoint sample_backend
     = (''https://translate.google.com.tr/translate_a/single'', sample_backend\<lparr>endpoint_index := 1\<rparr>)
   \<and> min_failures sample_backend = 0
   \<and> failures_get (endpoint_failures sample_backend)
        ''https://translate.google.com.tr/translate_a/single'' = 2
   \<and> list_all (\<lambda>ep. failures_get (endpoint_failures sample_backend)
                       (fst (get_next_endpoint sample_backend))
                     \<le> failures_get (endpoint_failures sample_backend) ep + 2) google_endpoints"
proof -
  have "available sample_backend
          = [''https://translate.google.com/translate_a/single'',
             ''https://translate.google.com.tr/translate_a/single'',
             ''https://translate.google.co.uk/translate_a/single'']"
    by (simp add: available_def min_failures_def sample_backend_def google_endpoints_def
                  failures_get_def)
  then have "get_next_endpoint sample_backend
     = (''https://translate.google.com.tr/translate_a/single'', sample_backend\<lparr>endpoint_index := 1\<rparr>)"
    by (simp add: get_next_endpoint_eq) (simp add: sample_backend_def)
  moreover have "min_failures sample_backend = 0"
    by (simp add: min_failures_def sample_backend_def google_endpoints_def failures_get_def)
  moreover have "failures_get (endpoint_failures sample_backend)
        ''https://translate.google.com.tr/translate_a/single'' = 2"
    by (simp add: sample_backend_def failures_get_def)
  ultimately show ?thesis
    using get_next_endpoint_within_two [of sample_backend]
    by (simp add: list_all_iff)
qed

lemma try_endpoint_length:
  "fst (try_endpoint texts ep resp failures) = Some parts \<Longrightarrow> length parts = length texts"
  by (auto simp: try_endpoint_def Let_def
           split: response.splits option.splits joined.splits if_splits)

lemma try_endpoint_parts:
  "try_endpoint texts ep resp failures = (Some parts, failures') \<Longrightarrow> length parts = length texts"
  using try_endpoint_length [of texts ep resp failures parts] by simp

lemma race_length:
  "fst (race texts net eps order g) = Some parts \<Longrightarrow> length parts = length texts"
proof (induction order arbitrary: g)
  case Nil
  then show ?case by simp
next
  case (Cons t order)
  show ?case
  proof (cases "t < length eps")
    case False
    then show ?thesis using Cons by simp
  next
    case True
    obtain result failures where te:
      "try_endpoint texts (eps ! t) (net t (eps ! t)) (endpoint_failures g) = (result, failures)"
      by (cases "try_endpoint texts (eps ! t) (net t (eps ! t)) (endpoint_failures g)")
    show ?thesis
    proof (cases "result_truthy result")
      case truthy: True
      with True te Cons.prems have "result = Some parts" by (simp add: Let_def)
      then show ?thesis using try_endpoint_parts te by blast
    next
      case falsy: False
      with True te Cons.prems
      have "fst (race texts net eps order (g\<lparr>endpoint_failures := failures\<rparr>)) = Some parts"
        by (simp add: Let_def)
      then show ?thesis by (rule Cons.IH)
    qed
  qed
qed

lemma one_by_one_length:
  "fst (one_by_one texts net t n g) = Some parts \<Longrightarrow> length parts = length texts"
proof (induction n arbitrary: t g)
  case 0
  then show ?case by simp
next
  case (Suc n)
  obtain ep g1 where ne: "get_next_endpoint g = (ep, g1)"
    by (cases "get_next_endpoint g")
  obtain result failures where te:
    "try_endpoint texts ep (net t ep) (endpoint_failures g1) = (result, failures)"
    by (cases "try_endpoint texts ep (net t ep) (endpoint_failures g1)")
  show ?case
  proof (cases "result_truthy result")
    case True
    with ne te Suc.prems have "result = Some parts" by (simp add: Let_def)
    then show ?thesis using try_endpoint_parts te by blast
  next
    case False
    with ne te Suc.prems
    have "fst (one_by_one texts net (Suc t) n (g1\<lparr>endpoint_failures := failures\<rparr>)) = Some parts"
      by (simp add: Let_def)
    then show ?thesis by (rule Suc.IH)
  qed
qed

lemma try_batch_separator_length:
  "fst (try_batch_separator texts net order g) = Some parts \<Longrightarrow> length parts = length texts"
  by (auto simp: try_batch_separator_def Let_def split: if_splits prod.splits
           dest: race_length one_by_one_length)

lemma translate_parallel_length:
  "length (fst (translate_parallel single texts g)) = length texts"
proof (induction texts arbitrary: g)
  case Nil
  then show ?case by simp
next
  case (Cons t texts)
  obtain result g1 where s: "single t g = (result, g1)" by (cases "single t g")
  obtain results g2 where p: "translate_parallel single texts g1 = (results, g2)"
    by (cases "translate_parallel single texts g1")
  have "length results = length texts" using Cons.IH [of g1] p by simp
  then show ?case using s p by simp
qed

lemma translate_texts_length:
  "length (fst (translate_texts single net order texts g)) = length texts"
proof -
  consider "texts = []" | "length texts = 1" | "texts \<noteq> []" "length texts \<noteq> 1" by blast
  then show ?thesis
  proof cases
    case 1
    then show ?thesis by (simp add: translate_texts_def)
  next
    case 2
    then have "texts \<noteq> []" by auto
    with 2 show ?thesis by (simp add: translate_texts_def Let_def split: prod.splits)
  next
    case 3
    obtain result g1 where r:
      "(if length texts \<le> 8 \<and> sum_list (map length texts) \<le> 1200
        then try_batch_separator texts net order g else (None, g)) = (result, g1)"
      by (cases "if length texts \<le> 8 \<and> sum_list (map length texts) \<le> 1200
                 then try_batch_separator texts net order g else (None, g)")
    show ?thesis
    proof (cases "result_truthy result")
      case True
      then obtain parts where p: "result = Some parts"
        by (auto simp: result_truthy_def split: option.splits)
      with r have "fst (try_batch_separator texts net order g) = Some parts"
        by (auto split: if_splits)
      then have "length parts = length texts" by (rule try_batch_separator_length)
      with 3 r True p show ?thesis by (simp add: translate_texts_def Let_def)
    next
      case False
      with 3 r show ?thesis
        by (simp add: translate_texts_def Let_def translate_parallel_length)
    qed
  qed
qed

lemma pick_endpoints_length: "length (fst (pick_endpoints n g)) = n"
  by (induction n arbitrary: g) (simp_all add: split_def Let_def)

text \<open>
  C8: in the separator path, when the joined translation splits into a number of parts that
  differs from the number of texts, \<open>try_endpoint\<close> returns \<open>None\<close>, the result of a failed
  attempt (the parts are discarded; the failure counters stay as they are). Hence
  \<open>_try_batch_separator\<close> returns either \<open>None\<close> or a list with one entry per input text,
  and \<open>translate_texts\<close> always returns one entry per input text.
\<close>

theorem separator_count_mismatch_discarded:
  "(join_body data = Joined full_translation
      \<and> length (py_split full_translation BATCH_SEPARATOR) \<noteq> length texts
     \<longrightarrow> try_endpoint texts ep (Response 200 (Some data)) failures = (None, failures))
   \<and> (fst (try_batch_separator texts net order g) = None
      \<or> (\<exists>parts. fst (try_batch_separator texts net order g) = Some parts
                 \<and> length parts = length texts))
   \<and> length (fst (translate_texts single net order texts g)) = length texts"
proof (intro conjI impI)
  assume "join_body data = Joined full_translation
      \<and> length (py_split full_translation BATCH_SEPARATOR) \<noteq> length texts"
  then show "try_endpoint texts ep (Response 200 (Some data)) failures = (None, failures)"
    by (simp add: try_endpoint_def)
next
  show "fst (try_batch_separator texts net order g) = None
      \<or> (\<exists>parts. fst (try_batch_separator texts net order g) = Some parts
                 \<and> length parts = length texts)"
    using try_batch_separator_length [of texts net order g]
    by (cases "fst (try_batch_separator texts net order g)") simp_all
next
  show "length (fst (translate_texts single net order texts g)) = length texts"
    by (rule translate_texts_length)
qed

theorem separator_count_mismatch_discarded_witness:
  "join_body one_segment = Joined ''Merhaba Selam''
   \<and> length (py_split ''Merhaba Selam'' BATCH_SEPARATOR) = 1
   \<and> fst (try_endpoint [''Hello'', ''Hi''] ''ep'' (Response 200 (Some one_segment)) Map.empty) = None
   \<and> fst (try_batch_separator [''Hello'', ''Hi''] (\<lambda>t ep. Response 200 (Some one_segment))
            [2, 0, 1] fresh_backend) = None
   \<and> fst (try_batch_separator [''Hello'', ''Hi'']
            (\<lambda>t ep. if t = 0 then Response 200 (Some two_segments) else RequestFailed)
            [2, 0, 1] fresh_backend) = Some [''Merhaba'', ''Selam'']
   \<and> fst (translate_texts (\<lambda>t g. (None, g)) (\<lambda>t ep. Response 200 (Some one_segment)) [2, 0, 1]
            [''Hello'', ''Hi''] fresh_backend) = [[], []]"
proof -
  have j: "join_body one_segment = Joined ''Merhaba Selam''"
    by (simp add: join_body_def one_segment_def)
  have s: "py_split ''Merhaba Selam'' BATCH_SEPARATOR = [''Merhaba Selam'']"
    by (simp add: py_split_def BATCH_SEPARATOR_def)
  have e: "try_endpoint [''Hello'', ''Hi''] ep (Response 200 (Some one_segment)) failures
             = (None, failures)" for ep failures
    using separator_count_mismatch_discarded
            [where data = one_segment and full_translation = "''Merhaba Selam''"
               and texts = "[''Hello'', ''Hi'']" and ep = ep and failures = failures]
          j s
    by simp
  have e2: "try_endpoint [''Hello'', ''Hi''] ep (Response 200 (Some two_segments)) failures
             = (Some [''Merhaba'', ''Selam''], failures(ep \<mapsto> 0))" for ep failures
    by (simp add: try_endpoint_def join_body_def two_segments_def py_split_def
                  BATCH_SEPARATOR_def strip_def is_space_def)
  have n: "length (fst (pick_endpoints (min 3 (length google_endpoints)) g)) = 3" for g
    unfolding pick_endpoints_length by (simp add: google_endpoints_def)
  have r1: "fst (try_batch_separator [''Hello'', ''Hi''] (\<lambda>t ep. Response 200 (Some one_segment))
            [2, 0, 1] fresh_backend) = None"
    by (simp add: try_batch_separator_def fresh_backend_def split_def Let_def n e
                  result_truthy_def)
  have r2: "fst (try_batch_separator [''Hello'', ''Hi'']
            (\<lambda>t ep. if t = 0 then Response 200 (Some two_segments) else RequestFailed)
            [2, 0, 1] fresh_backend) = Some [''Merhaba'', ''Selam'']"
    by (simp add: try_batch_separator_def fresh_backend_def split_def Let_def n e2
                  result_truthy_def try_endpoint_def [of _ _ RequestFailed])
  have r3: "fst (translate_texts (\<lambda>t g. (None, g)) (\<lambda>t ep. Response 200 (Some one_segment)) [2, 0, 1]
            [''Hello'', ''Hi''] fresh_backend) = [[], []]"
    by (simp add: translate_texts_def try_batch_separator_def fresh_backend_def split_def
                  Let_def n e result_truthy_def)
  show ?thesis
    using j s e [of "''ep''" Map.empty] r1 r2 r3 by simp
qed

section \<open>Properties of the durable memory\<close>

lemma load_absent:
  assumes "fs (tm_path m) = None" and "json_loads [123, 125] = Some Map.empty"
  shows "load json_loads m fs = (Inr (m\<lparr>tm_data := Map.empty\<rparr>), fs(tm_path m \<mapsto> [123, 125]))"
  using assms by (simp add: load_def is_cont_def)

lemma load_unparsable:
  assumes "fs (tm_path m) = Some bytes" and "utf8_decode bytes = Some txt"
      and "json_loads txt = None"
  shows "load json_loads m fs = (Inr (m\<lparr>tm_data := Map.empty\<rparr>), fs)"
  using assms by (simp add: load_def)

lemma load_undecodable:
  assumes "fs (tm_path m) = Some bytes" and "utf8_decode bytes = None"
  shows "load json_loads m fs = (Inl UnicodeDecodeError, fs)"
  using assms by (simp add: load_def)

text \<open>
  C9 (fails on the code): a store file that was cut off in the middle of a character is not
  valid UTF-8. Reading it raises \<open>UnicodeDecodeError\<close>, which \<open>_load\<close> does not catch (it
  catches \<open>JSONDecodeError\<close> only), so constructing the \<open>TranslationMemory\<close> raises, whatever
  the JSON parser would do.
\<close>

theorem truncated_store_raises:
  "utf8_decode truncated_store = None
   \<and> new_memory json_loads ''memory.json'' flush_now [''memory.json'' \<mapsto> truncated_store]
       = (Inl UnicodeDecodeError, [''memory.json'' \<mapsto> truncated_store])"
proof -
  have d: "utf8_decode truncated_store = None"
    by (simp add: truncated_store_def is_cont_def)
  show ?thesis
    using d by (simp add: new_memory_def load_undecodable)
qed

section \<open>Properties of the orchestrator\<close>

subsection \<open>The output buffer keeps its length\<close>

lemma write_slots_length:
  "write_slots idxs v resolved = Inr resolved' \<Longrightarrow> length resolved' = length resolved"
  by (induction idxs arbitrary: resolved) (auto split: if_splits)

lemma resolve_cached_length:
  "resolve_cached w src tgt pairs resolved pending = Inr (resolved', pending')
   \<Longrightarrow> length resolved' = length resolved"
proof (induction pairs arbitrary: resolved pending)
  case Nil
  then show ?case by simp
next
  case (Cons p pairs)
  obtain u idxs where p: "p = (u, idxs)" by (cases p)
  show ?case
  proof (cases "str_truthy (cached_value w (make_cache_key u src tgt))")
    case True
    then obtain r1 where w1:
        "write_slots idxs (the (cached_value w (make_cache_key u src tgt))) resolved = Inr r1"
        and rest: "resolve_cached w src tgt pairs r1 pending = Inr (resolved', pending')"
      using Cons.prems p by (auto simp: Let_def split: sum.splits)
    then show ?thesis
      using Cons.IH [OF rest] write_slots_length [OF w1] by simp
  next
    case False
    then show ?thesis
      using Cons.prems p Cons.IH by (auto simp: Let_def)
  qed
qed

lemma scatter_length:
  "scatter pcb n idxs v resolved completed w = (Inr (resolved', completed'), w')
   \<Longrightarrow> length resolved' = length resolved"
proof (induction idxs arbitrary: resolved completed w)
  case Nil
  then show ?case by simp
next
  case (Cons idx idxs)
  then show ?case by (cases "idx < length resolved") fastforce+
qed

lemma store_batch_length:
  "store_batch orch pcb n pairs resolved completed w = (Inr (resolved', completed'), w')
   \<Longrightarrow> length resolved' = length resolved"
proof (induction pairs arbitrary: resolved completed w)
  case Nil
  then show ?case by simp
next
  case (Cons p pairs)
  obtain entry translated where p: "p = (entry, translated)" by (cases p)
  obtain r1 c1 w3 where sc:
      "scatter pcb n (indexes entry) translated resolved completed
         (write_through orch entry translated w) = (Inr (r1, c1), w3)"
      and rest: "store_batch orch pcb n pairs r1 c1 w3 = (Inr (resolved', completed'), w')"
    using Cons.prems p by (auto split: prod.splits sum.splits)
  show ?case
    using Cons.IH [OF rest] scatter_length [OF sc] by simp
qed

lemma translate_batches_length:
  "translate_batches orch src tgt pcb lcb n batches resolved completed w = (Inr resolved', w')
   \<Longrightarrow> length resolved' = length resolved"
proof (induction batches arbitrary: resolved completed w)
  case Nil
  then show ?case by simp
next
  case (Cons batch batches)
  let ?req = "\<lparr>req_texts = map pe_text batch, source_lang = src, target_lang = tgt\<rparr>"
  obtain result w1 tr where r:
      "retry (backend_action orch ?req) (retry_policy orch) lcb w = (result, w1, tr)"
    by (cases "retry (backend_action orch ?req) (retry_policy orch) lcb w")
  define w2 where "w2 = w1\<lparr>log_calls := log_calls w1 @ logged tr, sleeps := sleeps w1 @ slept tr\<rparr>"
  from Cons.prems r obtain trs r1 c1 w3 where
      "store_batch orch pcb n (zip batch trs) resolved completed w2 = (Inr (r1, c1), w3)"
      and rest: "translate_batches orch src tgt pcb lcb n batches r1 c1 w3 = (Inr resolved', w')"
    by (auto simp: Let_def w2_def split: sum.splits if_splits prod.splits)
  then show ?case
    using Cons.IH [OF rest] store_batch_length by fastforce
qed

lemma fill_slots_length:
  assumes "fill_slots orch txts src tgt pcb lcb w = (Inr resolved, w')"
  shows "length resolved = length txts"
proof -
  from assms obtain dedup :: DeduplicationResult and r1 pending where
      rc: "resolve_cached w src tgt (zip (unique_texts dedup) (groups dedup))
             (replicate (length txts) None) [] = Inr (r1, pending)"
      and fin: "(if pending \<noteq> []
                 then translate_pending orch pending r1 src tgt pcb lcb
                        (report_progress pcb (count_resolved r1) (length txts) w)
                 else (Inr r1, report_progress pcb (count_resolved r1) (length txts) w))
                = (Inr resolved, w')"
    by (auto simp: fill_slots_def Let_def split: sum.splits prod.splits)
  have l1: "length r1 = length txts"
    using resolve_cached_length [OF rc] by simp
  show ?thesis
  proof (cases "pending = []")
    case True
    with fin l1 show ?thesis by simp
  next
    case False
    with fin have "translate_pending orch pending r1 src tgt pcb lcb
                     (report_progress pcb (count_resolved r1) (length txts) w) = (Inr resolved, w')"
      by simp
    then show ?thesis
      using l1 translate_batches_length by (fastforce simp: translate_pending_def Let_def)
  qed
qed

lemma missing_indexes_empty: "missing_indexes resolved = [] \<longleftrightarrow> None \<notin> set resolved"
  by (auto simp: missing_indexes_def filter_empty_conv in_set_conv_nth)

lemma verify_Inr:
  "verify resolved = Inr out \<Longrightarrow>
     None \<notin> set resolved \<and> out = map the resolved \<and> length out = length resolved"
proof -
  assume v: "verify resolved = Inr out"
  then have m: "missing_indexes resolved = []"
    by (auto simp: verify_def Let_def split: if_splits)
  then have n: "None \<notin> set resolved" by (simp add: missing_indexes_empty)
  then have "map (\<lambda>t. case t of None \<Rightarrow> [] | Some s \<Rightarrow> s) resolved = map the resolved"
    by (intro map_cong) (auto split: option.splits)
  with v m n show ?thesis by (auto simp: verify_def Let_def)
qed

text \<open>
  C1: whenever \<open>translate\<close> returns a list, the list has the length of the input and comes
  from a buffer of that length in which every slot has been written (no slot is \<open>None\<close>);
  otherwise \<open>translate\<close> raises. A buffer with an unwritten slot never passes the final
  check: the check raises the \<open>RuntimeError\<close> that lists the missing indexes.
\<close>

theorem translate_length_or_error:
  "(fst (translate orch txts src tgt pcb lcb w) = Inr out
     \<longrightarrow> length out = length txts
       \<and> (\<exists>resolved. fst (fill_slots orch txts src tgt pcb lcb w) = Inr resolved
             \<and> length resolved = length txts \<and> None \<notin> set resolved
             \<and> out = map the resolved))
   \<and> (None \<in> set buffer
     \<longrightarrow> verify buffer = Inl (MissingTranslations (missing_indexes buffer))
       \<and> missing_indexes buffer \<noteq> [])
   \<and> (isl (fst (translate orch txts src tgt pcb lcb w))
      \<or> length (projr (fst (translate orch txts src tgt pcb lcb w))) = length txts)"
proof -
  have a: "length out = length txts
       \<and> (\<exists>resolved. fst (fill_slots orch txts src tgt pcb lcb w) = Inr resolved
             \<and> length resolved = length txts \<and> None \<notin> set resolved
             \<and> out = map the resolved)"
    if t: "fst (translate orch txts src tgt pcb lcb w) = Inr out" for out
  proof -
    obtain res w' where f: "fill_slots orch txts src tgt pcb lcb w = (res, w')"
      by (cases "fill_slots orch txts src tgt pcb lcb w")
    with t obtain resolved where r: "res = Inr resolved" and v: "verify resolved = Inr out"
      by (cases res) (auto simp: translate_def)
    have "length resolved = length txts"
      using fill_slots_length f r by blast
    with verify_Inr [OF v] f r show ?thesis by simp
  qed
  have b: "verify buffer = Inl (MissingTranslations (missing_indexes buffer))
       \<and> missing_indexes buffer \<noteq> []" if "None \<in> set buffer"
    using that missing_indexes_empty [of buffer] by (simp add: verify_def Let_def)
  have c: "isl (fst (translate orch txts src tgt pcb lcb w))
      \<or> length (projr (fst (translate orch txts src tgt pcb lcb w))) = length txts"
  proof (cases "fst (translate orch txts src tgt pcb lcb w)")
    case (Inl e)
    then show ?thesis by simp
  next
    case (Inr out)
    then show ?thesis using a [OF Inr] by simp
  qed
  show ?thesis using a b c by blast
qed

theorem translate_length_or_error_witness:
  "fst (translate sample_orchestrator [''Hello'', ''Hello'', ''Hi''] ''en'' ''tr'' True True
          (sample_world Map.empty [''en::tr::Hello'' \<mapsto> ''Merhaba'']))
     = Inr [''Merhaba'', ''Merhaba'', ''<Hi>'']
   \<and> fst (fill_slots sample_orchestrator [''Hello'', ''Hello'', ''Hi''] ''en'' ''tr'' True True
          (sample_world Map.empty [''en::tr::Hello'' \<mapsto> ''Merhaba'']))
     = Inr [Some ''Merhaba'', Some ''Merhaba'', Some ''<Hi>'']
   \<and> verify [Some ''Merhaba'', None, None] = Inl (MissingTranslations [1, 2])"
proof -
  have t: "fst (translate sample_orchestrator [''Hello'', ''Hello'', ''Hi''] ''en'' ''tr'' True True
          (sample_world Map.empty [''en::tr::Hello'' \<mapsto> ''Merhaba'']))
     = Inr [''Merhaba'', ''Merhaba'', ''<Hi>'']"
    by code_simp
  have f: "fst (fill_slots sample_orchestrator [''Hello'', ''Hello'', ''Hi''] ''en'' ''tr'' True True
          (sample_world Map.empty [''en::tr::Hello'' \<mapsto> ''Merhaba'']))
     = Inr [Some ''Merhaba'', Some ''Merhaba'', Some ''<Hi>'']"
    by code_simp
  have m: "missing_indexes [Some ''Merhaba'', None, None] = [1, 2]"
    by code_simp
  show ?thesis
    using t f m
      translate_length_or_error
        [where orch = sample_orchestrator and txts = "[''Hello'', ''Hello'', ''Hi'']"
           and src = "''en''" and tgt = "''tr''" and pcb = True and lcb = True
           and w = "sample_world Map.empty [''en::tr::Hello'' \<mapsto> ''Merhaba'']"
           and out = "[''Merhaba'', ''Merhaba'', ''<Hi>'']"
           and buffer = "[Some ''Merhaba'', None, None]"]
    by simp
qed

subsection \<open>Which requests reach the backend\<close>

lemma extends_by_refl: "extends_by P w w"
  by (simp add: extends_by_def)

lemma extends_by_same: "requests w' = requests w \<Longrightarrow> extends_by P w0 w \<Longrightarrow> extends_by P w0 w'"
  by (simp add: extends_by_def)

lemma extends_by_action:
  "P request \<Longrightarrow> extends_by P w0 w \<Longrightarrow> extends_by P w0 (snd (backend_action orch request w))"
  by (auto simp: extends_by_def backend_action_def split: prod.splits)

lemma retry_loop_preserves:
  assumes step: "\<And>s. I s \<Longrightarrow> I (snd (action s))" and "I s"
  shows "I (fst (snd (retry_loop action policy lcb a d s tr)))"
  using assms(2)
proof (induction "nat (max_attempts policy - int a)" arbitrary: a d s tr rule: less_induct)
  case less
  obtain r s' where act: "action s = (r, s')" by (cases "action s")
  have s': "I s'" using step [OF less.prems] act by simp
  show ?case
  proof (cases r)
    case (Inr v)
    with act s' show ?thesis by (subst retry_loop.simps) (simp add: Let_def)
  next
    case (Inl exc)
    show ?thesis
    proof (cases "is_exception exc")
      case False
      with act Inl s' show ?thesis by (subst retry_loop.simps) (simp add: Let_def)
    next
      case caught: True
      show ?thesis
      proof (cases "int (a + 1) \<ge> max_attempts policy")
        case True
        with act Inl s' show ?thesis by (subst retry_loop.simps) (simp add: Let_def)
      next
        case False
        then have "nat (max_attempts policy - int (Suc a)) < nat (max_attempts policy - int a)"
          by simp
        then have "I (fst (snd (retry_loop action policy lcb (Suc a) d' s' tr')))" for d' tr'
          using less.hyps s' by blast
        with act Inl caught False show ?thesis
          by (subst retry_loop.simps) (simp add: Let_def)
      qed
    qed
  qed
qed

lemma retry_preserves:
  assumes "\<And>s. I s \<Longrightarrow> I (snd (action s))" and "I s"
  shows "I (fst (snd (retry action policy lcb s)))"
  unfolding retry_def using assms by (rule retry_loop_preserves)

lemma requests_report_progress [simp]: "requests (report_progress pcb c n w) = requests w"
  by (simp add: report_progress_def)

lemma requests_write_through [simp]: "requests (write_through orch entry v w) = requests w"
  by (simp add: write_through_def Let_def split_def)

lemma requests_scatter: "requests (snd (scatter pcb n idxs v resolved completed w)) = requests w"
  by (induction idxs arbitrary: resolved completed w) simp_all

lemma requests_store_batch:
  "requests (snd (store_batch orch pcb n pairs resolved completed w)) = requests w"
proof (induction pairs arbitrary: resolved completed w)
  case Nil
  then show ?case by simp
next
  case (Cons p pairs)
  obtain entry translated where p: "p = (entry, translated)" by (cases p)
  obtain res w1 where sc: "scatter pcb n (indexes entry) translated resolved completed
                             (write_through orch entry translated w) = (res, w1)"
    by (cases "scatter pcb n (indexes entry) translated resolved completed
                 (write_through orch entry translated w)")
  have w1: "requests w1 = requests w"
    using requests_scatter [of pcb n "indexes entry" translated resolved completed
                               "write_through orch entry translated w"] sc by simp
  show ?case
  proof (cases res)
    case (Inl e)
    with p sc w1 show ?thesis by simp
  next
    case (Inr rc)
    obtain r1 c1 where "rc = (r1, c1)" by (cases rc)
    with Inr p sc w1 Cons.IH [of r1 c1 w1] show ?thesis by simp
  qed
qed

lemma translate_batches_extends:
  assumes "\<forall>batch \<in> set batches.
             P \<lparr>req_texts = map pe_text batch, source_lang = src, target_lang = tgt\<rparr>"
      and "extends_by P w0 w"
  shows "extends_by P w0
           (snd (translate_batches orch src tgt pcb lcb n batches resolved completed w))"
  using assms
proof (induction batches arbitrary: resolved completed w)
  case Nil
  then show ?case by simp
next
  case (Cons batch batches)
  let ?req = "\<lparr>req_texts = map pe_text batch, source_lang = src, target_lang = tgt\<rparr>"
  have P: "P ?req" using Cons.prems(1) by simp
  obtain result w1 tr where r:
      "retry (backend_action orch ?req) (retry_policy orch) lcb w = (result, w1, tr)"
    by (cases "retry (backend_action orch ?req) (retry_policy orch) lcb w")
  have step: "extends_by P w0 (snd (backend_action orch ?req s))" if "extends_by P w0 s" for s
    using P that by (rule extends_by_action)
  have "extends_by P w0 (fst (snd (retry (backend_action orch ?req) (retry_policy orch) lcb w)))"
    using step Cons.prems(2) by (rule retry_preserves [where I = "extends_by P w0"])
  then have e1: "extends_by P w0 w1" using r by simp
  define w2 where "w2 = w1\<lparr>log_calls := log_calls w1 @ logged tr, sleeps := sleeps w1 @ slept tr\<rparr>"
  have e2: "extends_by P w0 w2"
    using e1 by (rule extends_by_same [rotated]) (simp add: w2_def)
  show ?case
  proof (cases result)
    case (Inl e)
    with r e2 show ?thesis by (simp add: Let_def w2_def)
  next
    case (Inr trs)
    show ?thesis
    proof (cases "length trs \<noteq> length batch")
      case True
      with Inr r e2 show ?thesis by (simp add: Let_def w2_def)
    next
      case False
      obtain res w3 where sb:
          "store_batch orch pcb n (zip batch trs) resolved completed w2 = (res, w3)"
        by (cases "store_batch orch pcb n (zip batch trs) resolved completed w2")
      have "requests w3 = requests w2"
        using requests_store_batch [of orch pcb n "zip batch trs" resolved completed w2] sb
        by simp
      then have e3: "extends_by P w0 w3" using e2 by (rule extends_by_same)
      show ?thesis
      proof (cases res)
        case (Inl e)
        with Inr r False sb e3 show ?thesis by (simp add: Let_def w2_def)
      next
        case inr: (Inr rc)
        obtain r1 c1 where rc: "rc = (r1, c1)" by (cases rc)
        have "extends_by P w0
                (snd (translate_batches orch src tgt pcb lcb n batches r1 c1 w3))"
          using Cons.prems(1) e3 by (intro Cons.IH) simp_all
        with Inr r False sb inr rc show ?thesis by (simp add: Let_def w2_def)
      qed
    qed
  qed
qed

lemma resolve_cached_pending:
  assumes "resolve_cached w src tgt pairs resolved pending = Inr (resolved', pending')"
      and "\<forall>e \<in> set pending. \<not> str_truthy (cached_value w (make_cache_key (pe_text e) src tgt))"
  shows "\<forall>e \<in> set pending'. \<not> str_truthy (cached_value w (make_cache_key (pe_text e) src tgt))"
  using assms
proof (induction pairs arbitrary: resolved pending)
  case Nil
  then show ?case by simp
next
  case (Cons p pairs)
  obtain u idxs where p: "p = (u, idxs)" by (cases p)
  show ?case
  proof (cases "str_truthy (cached_value w (make_cache_key u src tgt))")
    case True
    then obtain r1 where
        rest: "resolve_cached w src tgt pairs r1 pending = Inr (resolved', pending')"
      using Cons.prems(1) p by (auto simp: Let_def split: sum.splits)
    show ?thesis by (rule Cons.IH [OF rest Cons.prems(2)])
  next
    case False
    let ?entry = "\<lparr>pe_text = u, indexes = idxs, cache_key = make_cache_key u src tgt\<rparr>"
    have rest: "resolve_cached w src tgt pairs resolved (pending @ [?entry])
                  = Inr (resolved', pending')"
      using Cons.prems(1) p False by (simp add: Let_def)
    have "\<forall>e \<in> set (pending @ [?entry]).
            \<not> str_truthy (cached_value w (make_cache_key (pe_text e) src tgt))"
      using Cons.prems(2) False by simp
    then show ?thesis by (rule Cons.IH [OF rest])
  qed
qed

text \<open>
  The requests that \<open>translate\<close> may send from the world \<open>w\<close>: for the languages of the
  call, and only with texts whose key has no truthy value in the caches of \<open>w\<close>.
\<close>

lemma fill_slots_extends:
  "extends_by (\<lambda>req. source_lang req = src \<and> target_lang req = tgt
                  \<and> (\<forall>t \<in> set (req_texts req).
                        \<not> str_truthy (cached_value w (make_cache_key t src tgt))))
     w (snd (fill_slots orch txts src tgt pcb lcb w))"
    (is "extends_by ?P w _")
proof (cases "deduplicate_texts (seq_ratio orch) txts default_threshold")
  case (Inl e)
  then show ?thesis by (simp add: fill_slots_def extends_by_refl)
next
  case (Inr dedup)
  show ?thesis
  proof (cases "resolve_cached w src tgt (zip (unique_texts dedup) (groups dedup))
                  (replicate (length txts) None) []")
    case (Inl e)
    with Inr show ?thesis
      by (simp add: fill_slots_def extends_by_refl)
  next
    case inr: (Inr rp)
    obtain r1 pending where rp: "rp = (r1, pending)" by (cases rp)
    let ?w1 = "report_progress pcb (count_resolved r1) (length txts) w"
    have e1: "extends_by ?P w ?w1"
      by (rule extends_by_same [OF _ extends_by_refl]) simp
    have miss: "\<forall>e \<in> set pending.
                  \<not> str_truthy (cached_value w (make_cache_key (pe_text e) src tgt))"
      using resolve_cached_pending [of w src tgt _ _ "[]" r1 pending] inr rp by simp
    let ?batches = "build_batches (batch_char_limit orch) (batch_size orch) pending"
    have "concat ?batches = pending"
      by (simp add: build_batches_def batch_loop_concat)
    then have "\<forall>batch \<in> set ?batches. set batch \<subseteq> set pending"
      by (metis Sup_upper image_eqI set_concat)
    then have ok: "\<forall>batch \<in> set ?batches.
                ?P \<lparr>req_texts = map pe_text batch, source_lang = src, target_lang = tgt\<rparr>"
      using miss by auto
    have "extends_by ?P w
            (snd (translate_batches orch src tgt pcb lcb (length r1) ?batches r1
                    (count_resolved r1) ?w1))"
      using ok e1 by (rule translate_batches_extends)
    with Inr inr rp e1 show ?thesis
      by (simp add: fill_slots_def translate_pending_def Let_def)
  qed
qed

lemma snd_translate:
  "snd (translate orch txts src tgt pcb lcb w) = snd (fill_slots orch txts src tgt pcb lcb w)"
  by (simp add: translate_def split: prod.splits sum.splits)

text \<open>
  C2 (as stated, refuted): after a run in which the backend returned the empty string for
  \<open>Hello\<close>, both caches hold the key \<open>en::tr::Hello\<close>, with the empty string as its value.
  The key is present in both at the start of the next call, and yet that call sends
  \<open>Hello\<close> to the backend again: the lookup is tested for truth, \<open>if cached:\<close>, not for
  presence.
\<close>

theorem cached_empty_string_calls_backend:
  "sc_get (session_cache after_blank_run) (make_cache_key ''Hello'' ''en'' ''tr'') = Some []
   \<and> tm_get (memory after_blank_run) (make_cache_key ''Hello'' ''en'' ''tr'') = Some []
   \<and> map req_texts
        (new_requests after_blank_run
           (snd (translate sample_orchestrator [''Hello''] ''en'' ''tr'' True True after_blank_run)))
       = [[''Hello'']]
   \<and> fst (translate sample_orchestrator [''Hello''] ''en'' ''tr'' True True after_blank_run)
       = Inr [''<Hello>'']"
  by (intro conjI; code_simp)

text \<open>
  C2 (amended): for every key whose cached value at the start of a \<open>translate\<close> call is a
  non-empty string (the value in the session cache or, when that one is absent or empty,
  the value in the durable cache), the backend's \<open>translate_texts\<close> is never invoked with
  that key's text during the call. The requests made before the call stay as they were, and
  every request of the call is for the languages of the call.
\<close>

theorem cache_hit_no_backend_call:
  "take (length (requests w)) (requests (snd (translate orch txts src tgt pcb lcb w)))
     = requests w
   \<and> (\<forall>req \<in> set (new_requests w (snd (translate orch txts src tgt pcb lcb w))).
         source_lang req = src \<and> target_lang req = tgt)
   \<and> (str_truthy (cached_value w (make_cache_key t src tgt))
     \<longrightarrow> (\<forall>req \<in> set (new_requests w (snd (translate orch txts src tgt pcb lcb w))).
            t \<notin> set (req_texts req)))"
proof -
  let ?w' = "snd (translate orch txts src tgt pcb lcb w)"
  obtain new where n: "requests ?w' = requests w @ new"
      and p: "list_all (\<lambda>req. source_lang req = src \<and> target_lang req = tgt
                  \<and> (\<forall>t \<in> set (req_texts req).
                        \<not> str_truthy (cached_value w (make_cache_key t src tgt)))) new"
    using fill_slots_extends [of src tgt w orch txts pcb lcb]
    by (auto simp: extends_by_def snd_translate)
  have "new_requests w ?w' = new"
    using n by (simp add: new_requests_def)
  then show ?thesis
    using n p by (auto simp: list_all_iff)
qed

theorem cache_hit_no_backend_call_witness:
  "str_truthy (cached_value (sample_world Map.empty [''en::tr::Hello'' \<mapsto> ''Merhaba''])
                 (make_cache_key ''Hello'' ''en'' ''tr''))
   \<and> map req_texts
        (new_requests (sample_world Map.empty [''en::tr::Hello'' \<mapsto> ''Merhaba''])
           (snd (translate sample_orchestrator [''Hello'', ''Hello'', ''Hi''] ''en'' ''tr'' True True
                   (sample_world Map.empty [''en::tr::Hello'' \<mapsto> ''Merhaba'']))))
       = [[''Hi'']]
   \<and> list_all (\<lambda>req. ''Hello'' \<notin> set (req_texts req) \<and> source_lang req = ''en''
                      \<and> target_lang req = ''tr'')
        (new_requests (sample_world Map.empty [''en::tr::Hello'' \<mapsto> ''Merhaba''])
           (snd (translate sample_orchestrator [''Hello'', ''Hello'', ''Hi''] ''en'' ''tr'' True True
                   (sample_world Map.empty [''en::tr::Hello'' \<mapsto> ''Merhaba'']))))"
proof -
  have h: "str_truthy (cached_value (sample_world Map.empty [''en::tr::Hello'' \<mapsto> ''Merhaba''])
                 (make_cache_key ''Hello'' ''en'' ''tr''))"
    by code_simp
  have r: "map req_texts
        (new_requests (sample_world Map.empty [''en::tr::Hello'' \<mapsto> ''Merhaba''])
           (snd (translate sample_orchestrator [''Hello'', ''Hello'', ''Hi''] ''en'' ''tr'' True True
                   (sample_world Map.empty [''en::tr::Hello'' \<mapsto> ''Merhaba'']))))
       = [[''Hi'']]"
    by code_simp
  show ?thesis
    using h r
      cache_hit_no_backend_call
        [where w = "sample_world Map.empty [''en::tr::Hello'' \<mapsto> ''Merhaba'']"
           and orch = sample_orchestrator and txts = "[''Hello'', ''Hello'', ''Hi'']"
           and src = "''en''" and tgt = "''tr''" and pcb = True and lcb = True
           and t = "''Hello''"]
    by (simp add: list_all_iff)
qed

end
